theory Spec2Isabelle
  imports Complex_Main "HOL-Library.Multiset" "HOL-Library.Log_Nat"
begin

section \<open>Numbers\<close>

text \<open>
  The services compute on JavaScript numbers and the database on doubles: both are IEEE 754
  binary64. A finite number is modelled by the rational it denotes. An arithmetic operation
  computes the exact result and rounds it to the nearest number with a significand of 53
  bits, a tie going to the even significand: this is \<open>fl\<close> below. A decimal literal of the
  source, such as \<open>0.05\<close>, denotes the rounded value \<open>fl (5 / 100)\<close>. The exponent is not
  bounded in the model, so overflow to an infinity and gradual underflow do not occur in
  it, and the two zeros are one value.
\<close>

text \<open>Rounding to the nearest integer, a tie going to the even one.\<close>

definition round_half_even :: "rat \<Rightarrow> int" where
  "round_half_even x =
     (let f = \<lfloor>x\<rfloor>; r = x - of_int f
      in if r < 1 / 2 then f else if 1 / 2 < r then f + 1
         else if even f then f else f + 1)"

text \<open>
  \<open>pow2 e\<close> is \<open>2\<close> to the power \<open>e\<close>, and \<open>ilog2 x\<close> the exponent of a positive \<open>x\<close>: the
  integer \<open>e\<close> with \<open>pow2 e \<le> x < pow2 (e + 1)\<close>, found from the bit lengths of numerator and
  denominator.
\<close>

definition pow2 :: "int \<Rightarrow> rat" where
  "pow2 e = (if 0 \<le> e then 2 ^ nat e else 1 / 2 ^ nat (- e))"

definition ilog2 :: "rat \<Rightarrow> int" where
  "ilog2 x =
     (let d = bitlen (fst (quotient_of x)) - bitlen (snd (quotient_of x))
      in if pow2 d \<le> x then d else d - 1)"

text \<open>
  \<open>fl x\<close>: the binary64 number nearest to \<open>x\<close>. With \<open>e\<close> the exponent of \<open>\<bar>x\<bar>\<close>, the
  numbers of that binade are the multiples of \<open>pow2 (e - 52)\<close>.
\<close>

definition fl :: "rat \<Rightarrow> rat" where
  "fl x =
     (if x = 0 then 0
      else let u = pow2 (ilog2 \<bar>x\<bar> - 52)
           in of_int (round_half_even (x / u)) * u)"

text \<open>
  A number is a finite one, one of the two infinities, or NaN. A field that is
  \<open>undefined\<close>, \<open>null\<close> or absent is \<open>None\<close>.
\<close>

datatype jsnum = Fin rat | PInf | NInf | NaN

fun isNaN :: "jsnum \<Rightarrow> bool" where
  "isNaN NaN = True"
| "isNaN _ = False"

fun js_neg :: "jsnum \<Rightarrow> jsnum" where
  "js_neg (Fin a) = Fin (- a)"
| "js_neg PInf = NInf"
| "js_neg NInf = PInf"
| "js_neg NaN = NaN"

fun js_add :: "jsnum \<Rightarrow> jsnum \<Rightarrow> jsnum" where
  "js_add NaN _ = NaN"
| "js_add _ NaN = NaN"
| "js_add (Fin a) (Fin b) = Fin (fl (a + b))"
| "js_add PInf NInf = NaN"
| "js_add NInf PInf = NaN"
| "js_add PInf _ = PInf"
| "js_add NInf _ = NInf"
| "js_add (Fin a) PInf = PInf"
| "js_add (Fin a) NInf = NInf"

definition js_sub :: "jsnum \<Rightarrow> jsnum \<Rightarrow> jsnum" where
  "js_sub a b = js_add a (js_neg b)"

fun js_sgn :: "jsnum \<Rightarrow> rat" where
  "js_sgn (Fin a) = sgn a"
| "js_sgn PInf = 1"
| "js_sgn NInf = - 1"
| "js_sgn NaN = 0"

fun js_mul :: "jsnum \<Rightarrow> jsnum \<Rightarrow> jsnum" where
  "js_mul NaN _ = NaN"
| "js_mul _ NaN = NaN"
| "js_mul (Fin a) (Fin b) = Fin (fl (a * b))"
| "js_mul a b =
     (if js_sgn a * js_sgn b = 0 then NaN
      else if 0 < js_sgn a * js_sgn b then PInf else NInf)"

text \<open>Division; a zero divisor is read as the positive zero.\<close>

fun js_div :: "jsnum \<Rightarrow> jsnum \<Rightarrow> jsnum" where
  "js_div NaN _ = NaN"
| "js_div _ NaN = NaN"
| "js_div (Fin a) (Fin b) =
     (if b = 0 then (if a = 0 then NaN else if 0 < a then PInf else NInf)
      else Fin (fl (a / b)))"
| "js_div (Fin a) _ = Fin 0"
| "js_div a (Fin b) = (if 0 \<le> b then a else js_neg a)"
| "js_div _ _ = NaN"

text \<open>\<open>a < b\<close> on numbers: false as soon as one side is NaN.\<close>

fun js_lt :: "jsnum \<Rightarrow> jsnum \<Rightarrow> bool" where
  "js_lt NaN _ = False"
| "js_lt _ NaN = False"
| "js_lt (Fin a) (Fin b) = (a < b)"
| "js_lt NInf NInf = False"
| "js_lt NInf _ = True"
| "js_lt _ NInf = False"
| "js_lt PInf _ = False"
| "js_lt _ PInf = True"

text \<open>
  \<open>Math.floor\<close> and \<open>Math.round\<close> (which rounds a tie towards plus infinity). Both are
  exact: they involve no rounding to binary64.
\<close>

fun Math_floor :: "jsnum \<Rightarrow> jsnum" where
  "Math_floor (Fin a) = Fin (of_int \<lfloor>a\<rfloor>)"
| "Math_floor x = x"

fun Math_round :: "jsnum \<Rightarrow> jsnum" where
  "Math_round (Fin a) = Fin (of_int \<lfloor>a + 1 / 2\<rfloor>)"
| "Math_round x = x"

text \<open>\<open>x || 0\<close> on a numeric field: \<open>undefined\<close>, \<open>null\<close>, NaN and zero all give 0.\<close>

fun or0 :: "jsnum option \<Rightarrow> jsnum" where
  "or0 None = Fin 0"
| "or0 (Some NaN) = Fin 0"
| "or0 (Some x) = x"

text \<open>
  \<open>xs[i]\<close> for a number \<open>i\<close>: the element when \<open>i\<close> is an integer within the array,
  \<open>undefined\<close> otherwise.
\<close>

fun js_index :: "'a list \<Rightarrow> jsnum \<Rightarrow> 'a option" where
  "js_index xs (Fin q) =
     (if q = of_int \<lfloor>q\<rfloor> \<and> 0 \<le> q \<and> \<lfloor>q\<rfloor> < int (length xs) then Some (xs ! nat \<lfloor>q\<rfloor>) else None)"
| "js_index xs _ = None"

text \<open>
  \<open>Array.prototype.sort\<close> with a comparator is stable. It is modelled by insertion from
  the right: \<open>le x y\<close> says that the comparator does not put \<open>x\<close> after \<open>y\<close>.
\<close>

fun insert_by :: "('a \<Rightarrow> 'a \<Rightarrow> bool) \<Rightarrow> 'a \<Rightarrow> 'a list \<Rightarrow> 'a list" where
  "insert_by le x [] = [x]"
| "insert_by le x (y # ys) = (if le x y then x # y # ys else y # insert_by le x ys)"

definition sort_by :: "('a \<Rightarrow> 'a \<Rightarrow> bool) \<Rightarrow> 'a list \<Rightarrow> 'a list" where
  "sort_by le xs = foldr (insert_by le) xs []"

text \<open>
  The comparator \<open>(a, b) => a - b\<close>: \<open>a\<close> stays before \<open>b\<close> unless \<open>a - b\<close> is positive
  (a NaN difference, of two equal infinities, counts as zero).
\<close>

definition cmp_sub_le :: "jsnum \<Rightarrow> jsnum \<Rightarrow> bool" where
  "cmp_sub_le a b = (\<not> js_lt (Fin 0) (js_sub a b))"

section \<open>The token collection\<close>

record BundleData =
  bundleSize :: rat
  totalBuySol :: rat

record token_doc =
  mint :: string
  mintTime :: rat
  migrated :: bool
  maxSol :: "jsnum option"
  maxPrice :: "jsnum option"
  mintSlotSol :: "jsnum option"
  mintBuyAmt :: "jsnum option"
  mintPattern :: string
  unitPrice :: "rat option"
  unitLimit :: "rat option"
  postMintBundle :: BundleData

text \<open>
  Reading the collection either fails with the driver's error or yields its documents.
\<close>

datatype db_error = UpstreamFailure string | LimitNotPositive

type_synonym store = "db_error + token_doc list"

section \<open>The grouping engine: \<open>fetchProfitableTokenGroupsWithMigration\<close>\<close>

record GroupingCriteria =
  mintPattern :: bool
  unitPrice :: bool
  unitLimit :: bool
  postMintBundle :: bool

record QueryFilters =
  minMaxSol :: "rat option"
  startTime :: "rat option"
  endTime :: "rat option"
  mintPattern :: "string option"
  unitPrice :: "rat option"
  unitLimit :: "rat option"
  winPercent :: "jsnum option"

text \<open>A query condition \<open>{field: {$gte: v}}\<close> on a numeric field.\<close>

fun query_gte :: "jsnum option \<Rightarrow> rat \<Rightarrow> bool" where
  "query_gte (Some (Fin a)) v = (v \<le> a)"
| "query_gte (Some PInf) v = True"
| "query_gte _ v = False"

text \<open>
  \<open>matchQuery\<close>: each filter that is supplied adds a condition; \<open>minMaxSol\<close> defaults to 0
  and only a positive value adds one; an empty \<open>mintPattern\<close> string adds none.
\<close>

definition matchQuery :: "QueryFilters \<Rightarrow> token_doc \<Rightarrow> bool" where
  "matchQuery f d =
    ((case minMaxSol f of None \<Rightarrow> True
        | Some m \<Rightarrow> (if 0 < m then query_gte (maxSol d) m else True)) \<and>
     (case startTime f of None \<Rightarrow> True | Some s \<Rightarrow> s \<le> mintTime d) \<and>
     (case endTime f of None \<Rightarrow> True | Some e \<Rightarrow> mintTime d \<le> e) \<and>
     (case QueryFilters.mintPattern f of None \<Rightarrow> True
        | Some p \<Rightarrow> (if p \<noteq> [] then token_doc.mintPattern d = p else True)) \<and>
     (case QueryFilters.unitPrice f of None \<Rightarrow> True
        | Some u \<Rightarrow> token_doc.unitPrice d = Some u) \<and>
     (case QueryFilters.unitLimit f of None \<Rightarrow> True
        | Some u \<Rightarrow> token_doc.unitLimit d = Some u))"

text \<open>\<open>$round\<close> of the database rounds a tie to the even neighbour.\<close>

definition mongo_round :: "rat \<Rightarrow> nat \<Rightarrow> rat" where
  "mongo_round x places = of_int (round_half_even (x * 10 ^ places)) / 10 ^ places"

text \<open>
  \<open>groupId\<close>: the group key holds the value of every enabled dimension, in the fixed
  order pattern, price, limit, bundle; a dimension that is not enabled, or whose field is
  absent from the document, is \<open>None\<close>.
\<close>

record group_id =
  mintPattern :: "string option"
  unitPrice :: "rat option"
  unitLimit :: "rat option"
  bundleSize :: "rat option"
  totalBuySol :: "rat option"

definition groupId :: "GroupingCriteria \<Rightarrow> token_doc \<Rightarrow> group_id" where
  "groupId c d =
    \<lparr> group_id.mintPattern =
        (if GroupingCriteria.mintPattern c then Some (token_doc.mintPattern d) else None),
      group_id.unitPrice =
        (if GroupingCriteria.unitPrice c then token_doc.unitPrice d else None),
      group_id.unitLimit =
        (if GroupingCriteria.unitLimit c then token_doc.unitLimit d else None),
      group_id.bundleSize =
        (if GroupingCriteria.postMintBundle c
         then Some (BundleData.bundleSize (token_doc.postMintBundle d)) else None),
      group_id.totalBuySol =
        (if GroupingCriteria.postMintBundle c
         then Some (mongo_round (BundleData.totalBuySol (token_doc.postMintBundle d)) 2)
         else None) \<rparr>"

text \<open>
  The \<open>$group\<close> stage: one accumulator per key, updated document by document
  (\<open>$sum: 1\<close>, \<open>$sum: {$cond: [$migrated, 1, 0]}\<close>, \<open>$push\<close>). The database leaves the
  order of the groups open; here they are in order of first appearance, and the
  \<open>$sort\<close> stage below orders them. The sums and averages of \<open>maxSol\<close> and the
  \<open>groupKey\<close> label are not part of the model.
\<close>

record group_acc =
  acc_id :: group_id
  acc_totalTokens :: nat
  acc_migratedTokens :: nat
  acc_tokens :: "token_doc list"

definition acc_new :: "group_id \<Rightarrow> token_doc \<Rightarrow> group_acc" where
  "acc_new k d =
    \<lparr> acc_id = k, acc_totalTokens = 1,
      acc_migratedTokens = (if migrated d then 1 else 0), acc_tokens = [d] \<rparr>"

definition acc_add :: "group_acc \<Rightarrow> token_doc \<Rightarrow> group_acc" where
  "acc_add a d =
    a \<lparr> acc_totalTokens := acc_totalTokens a + 1,
        acc_migratedTokens := acc_migratedTokens a + (if migrated d then 1 else 0),
        acc_tokens := acc_tokens a @ [d] \<rparr>"

fun group_step :: "group_id \<Rightarrow> token_doc \<Rightarrow> group_acc list \<Rightarrow> group_acc list" where
  "group_step k d [] = [acc_new k d]"
| "group_step k d (a # as) =
     (if acc_id a = k then acc_add a d # as else a # group_step k d as)"

definition group_stage :: "GroupingCriteria \<Rightarrow> token_doc list \<Rightarrow> group_acc list" where
  "group_stage c ds = foldl (\<lambda>as d. group_step (groupId c d) d as) [] ds"

text \<open>
  The \<open>$project\<close> stage. \<open>$divide\<close> and \<open>$multiply\<close> each give a double: the quotient of
  the two counts is rounded, and so is its product with 100.
\<close>

record agg_result =
  groupIdentifier :: group_id
  totalTokens :: nat
  migratedTokens :: nat
  migrationRate :: rat
  profitableTokens :: nat
  tokens :: "token_doc list"

definition project_stage :: "group_acc \<Rightarrow> agg_result" where
  "project_stage a =
    \<lparr> groupIdentifier = acc_id a,
      totalTokens = acc_totalTokens a,
      migratedTokens = acc_migratedTokens a,
      migrationRate =
        fl (fl (of_nat (acc_migratedTokens a) / of_nat (acc_totalTokens a)) * 100),
      profitableTokens = acc_totalTokens a,
      tokens = acc_tokens a \<rparr>"

text \<open>The \<open>$sort\<close> stage \<open>{migrationRate: -1, totalTokens: -1}\<close>.\<close>

definition sort_le :: "agg_result \<Rightarrow> agg_result \<Rightarrow> bool" where
  "sort_le g h =
    (migrationRate h < migrationRate g \<or>
     (migrationRate g = migrationRate h \<and> totalTokens h \<le> totalTokens g))"

definition aggregate :: "GroupingCriteria \<Rightarrow> QueryFilters \<Rightarrow> token_doc list \<Rightarrow> agg_result list" where
  "aggregate c f ds =
     sort_by sort_le (map project_stage (group_stage c (filter (matchQuery f) ds)))"

text \<open>
  The rise of one member: \<open>maxSol - baseValue\<close>, where the base is \<open>mintSlotSol\<close>, or
  \<open>mintBuyAmt\<close> when \<open>mintSlotSol\<close> is below 0.05.
\<close>

definition baseValue :: "token_doc \<Rightarrow> jsnum" where
  "baseValue t =
    (if js_lt (or0 (mintSlotSol t)) (Fin (fl (5 / 100))) then or0 (mintBuyAmt t)
     else or0 (mintSlotSol t))"

definition riseSol_of :: "token_doc \<Rightarrow> jsnum" where
  "riseSol_of t = js_sub (or0 (maxSol t)) (baseValue t)"

text \<open>\<open>.filter(rise => !isNaN(rise)).sort((a, b) => a - b)\<close>\<close>

definition sorted_rises :: "jsnum list \<Rightarrow> jsnum list" where
  "sorted_rises rs = sort_by cmp_sub_le (filter (\<lambda>r. \<not> isNaN r) rs)"

definition riseSols :: "token_doc list \<Rightarrow> jsnum list" where
  "riseSols ts = sorted_rises (map riseSol_of ts)"

text \<open>\<open>winPercent = 70\<close> in the destructuring: the default applies when none is supplied.\<close>

definition winPercent_of :: "QueryFilters \<Rightarrow> jsnum" where
  "winPercent_of f = (case winPercent f of None \<Rightarrow> Fin 70 | Some p \<Rightarrow> p)"

definition percentileIndex :: "jsnum list \<Rightarrow> jsnum \<Rightarrow> jsnum" where
  "percentileIndex rs p =
     Math_floor (js_mul (Fin (of_nat (length rs))) (js_sub (Fin 1) (js_div p (Fin 100))))"

text \<open>
  The percentile estimator proper, on a sorted array: the local \<open>commonRiseSol\<close>, which is
  \<open>undefined\<close> (\<open>None\<close>) when the index falls outside the array.
\<close>

definition percentile_pick :: "jsnum list \<Rightarrow> jsnum \<Rightarrow> jsnum option" where
  "percentile_pick rs p =
     (if 0 < length rs then js_index rs (percentileIndex rs p) else Some (Fin 0))"

definition commonRiseSol_local :: "jsnum list \<Rightarrow> jsnum \<Rightarrow> jsnum option" where
  "commonRiseSol_local rises p = percentile_pick (sorted_rises rises) p"

text \<open>\<open>Math.round(x * k) / k\<close>; an \<open>undefined\<close> operand makes the product NaN.\<close>

definition round_to :: "rat \<Rightarrow> jsnum option \<Rightarrow> jsnum" where
  "round_to k x =
     (case x of None \<Rightarrow> NaN | Some v \<Rightarrow> js_div (Math_round (js_mul v (Fin k))) (Fin k))"

text \<open>\<open>Math.round(x * 100) / 100\<close> on a finite number.\<close>

definition round2 :: "rat \<Rightarrow> rat" where
  "round2 x = fl (of_int \<lfloor>fl (x * 100) + 1 / 2\<rfloor> / 100)"

record TokenGroupStats =
  groupIdentifier :: group_id
  totalTokens :: nat
  migratedTokens :: nat
  migrationRate :: rat
  profitableTokens :: nat
  commonRiseSol :: jsnum
  tokens :: "token_doc list"

definition to_stats :: "jsnum \<Rightarrow> agg_result \<Rightarrow> TokenGroupStats" where
  "to_stats p r =
    \<lparr> TokenGroupStats.groupIdentifier = agg_result.groupIdentifier r,
      TokenGroupStats.totalTokens = agg_result.totalTokens r,
      TokenGroupStats.migratedTokens = agg_result.migratedTokens r,
      TokenGroupStats.migrationRate = round2 (agg_result.migrationRate r),
      TokenGroupStats.profitableTokens = agg_result.profitableTokens r,
      TokenGroupStats.commonRiseSol =
        round_to 10000 (percentile_pick (riseSols (agg_result.tokens r)) p),
      TokenGroupStats.tokens = agg_result.tokens r \<rparr>"

definition fetchProfitableTokenGroupsWithMigration ::
  "GroupingCriteria \<Rightarrow> QueryFilters \<Rightarrow> store \<Rightarrow> db_error + TokenGroupStats list" where
  "fetchProfitableTokenGroupsWithMigration c f db =
     (case db of
        Inl e \<Rightarrow> Inl e
      | Inr ds \<Rightarrow> Inr (map (to_stats (winPercent_of f)) (aggregate c f ds)))"

text \<open>
  \<open>results.slice(0, limit)\<close> for an integer \<open>limit\<close>: a negative limit counts from the end.
\<close>

definition slice0 :: "'a list \<Rightarrow> int \<Rightarrow> 'a list" where
  "slice0 xs limit =
     (if limit < 0 then take (nat (int (length xs) + limit)) xs else take (nat limit) xs)"

definition getTopMigratingGroups ::
  "GroupingCriteria \<Rightarrow> QueryFilters \<Rightarrow> int option \<Rightarrow> store \<Rightarrow> db_error + TokenGroupStats list" where
  "getTopMigratingGroups c f limit db =
     (case fetchProfitableTokenGroupsWithMigration c f db of
        Inl e \<Rightarrow> Inl e
      | Inr results \<Rightarrow>
          Inr (slice0 (filter (\<lambda>g. 2 \<le> TokenGroupStats.totalTokens g) results)
                 (case limit of None \<Rightarrow> 10 | Some l \<Rightarrow> l)))"


section \<open>The threshold simulator: \<open>findProfitableTokenGroups\<close>\<close>

text \<open>
  This query is one aggregation pipeline, evaluated by the database. The model covers
  documents whose numeric fields hold finite numbers (the schema defaults each of them to
  0), so a number is a rational here. Each \<open>$addFields\<close> stage is a function of the
  group document named after the field it adds. The start date, which the code derives
  from the clock and \<open>daysBack\<close>, is a parameter.

  In this section the arithmetic of the stages is exact. It serves for what depends on
  comparisons, counts and signs only, which rounding to binary64 leaves as they are
  (\<open>fl\<close> is monotone and keeps the sign). The stages from the candidates to the scores
  are given again in binary64 in the next section.
\<close>

datatype sort_key = SortAvgRiseSol | SortMaxRiseSol | SortTotalTokens

record options =
  groupByComputeUnits :: "bool option"
  minRiseSol :: "rat option"
  minTokensInGroup :: "rat option"
  limit :: "int option"
  sortBy :: "sort_key option"

record profit_doc =
  mint :: string
  mintPattern :: string
  unitPrice :: "rat option"
  unitLimit :: "rat option"
  createdAt :: rat
  mintSlotSol :: rat
  firstSlotSol :: rat
  maxSol :: rat

text \<open>The two \<open>$addFields\<close> stages \<open>buyPriceSol\<close> and \<open>riseSol\<close>, and the pushed member.\<close>

record sim_token =
  mint :: string
  riseSol :: rat
  maxSol :: rat
  buyPriceSol :: rat

definition add_buyPriceSol :: "profit_doc \<Rightarrow> rat" where
  "add_buyPriceSol d =
     (if profit_doc.mintSlotSol d \<le> firstSlotSol d then profit_doc.mintSlotSol d
      else firstSlotSol d)"

definition add_riseSol :: "profit_doc \<Rightarrow> rat" where
  "add_riseSol d = profit_doc.maxSol d - add_buyPriceSol d"

definition push_token :: "profit_doc \<Rightarrow> sim_token" where
  "push_token d =
    \<lparr> sim_token.mint = profit_doc.mint d, riseSol = add_riseSol d,
      sim_token.maxSol = profit_doc.maxSol d, buyPriceSol = add_buyPriceSol d \<rparr>"

record profit_group_id =
  mintPattern :: string
  unitPrice :: "rat option"
  unitLimit :: "rat option"

definition profit_groupId :: "bool \<Rightarrow> profit_doc \<Rightarrow> profit_group_id" where
  "profit_groupId byUnits d =
    \<lparr> profit_group_id.mintPattern = profit_doc.mintPattern d,
      profit_group_id.unitPrice = (if byUnits then profit_doc.unitPrice d else None),
      profit_group_id.unitLimit = (if byUnits then profit_doc.unitLimit d else None) \<rparr>"

text \<open>
  The \<open>$group\<close> stage, with running accumulators (\<open>$avg\<close> keeps a sum and the count).
\<close>

record profit_acc =
  p_id :: profit_group_id
  p_count :: nat
  p_sumRise :: rat
  p_maxRise :: rat
  p_minRise :: rat
  p_sumMaxSol :: rat
  p_sumBuyPrice :: rat
  p_tokens :: "sim_token list"

definition p_new :: "profit_group_id \<Rightarrow> sim_token \<Rightarrow> profit_acc" where
  "p_new k t =
    \<lparr> p_id = k, p_count = 1, p_sumRise = riseSol t, p_maxRise = riseSol t,
      p_minRise = riseSol t, p_sumMaxSol = sim_token.maxSol t,
      p_sumBuyPrice = buyPriceSol t, p_tokens = [t] \<rparr>"

definition p_add :: "profit_acc \<Rightarrow> sim_token \<Rightarrow> profit_acc" where
  "p_add a t =
    a \<lparr> p_count := p_count a + 1,
        p_sumRise := p_sumRise a + riseSol t,
        p_maxRise := max (p_maxRise a) (riseSol t),
        p_minRise := min (p_minRise a) (riseSol t),
        p_sumMaxSol := p_sumMaxSol a + sim_token.maxSol t,
        p_sumBuyPrice := p_sumBuyPrice a + buyPriceSol t,
        p_tokens := p_tokens a @ [t] \<rparr>"

fun p_step :: "profit_group_id \<Rightarrow> sim_token \<Rightarrow> profit_acc list \<Rightarrow> profit_acc list" where
  "p_step k t [] = [p_new k t]"
| "p_step k t (a # as) = (if p_id a = k then p_add a t # as else a # p_step k t as)"

record profit_group =
  gid :: profit_group_id
  totalTokens :: nat
  avgRiseSol :: rat
  maxRiseSol :: rat
  minRiseSol :: rat
  avgMaxSol :: rat
  avgBuyPriceSol :: rat
  totalRiseSol :: rat
  tokens :: "sim_token list"

definition finish_group :: "profit_acc \<Rightarrow> profit_group" where
  "finish_group a =
    \<lparr> gid = p_id a,
      profit_group.totalTokens = p_count a,
      avgRiseSol = p_sumRise a / of_nat (p_count a),
      maxRiseSol = p_maxRise a,
      profit_group.minRiseSol = p_minRise a,
      avgMaxSol = p_sumMaxSol a / of_nat (p_count a),
      avgBuyPriceSol = p_sumBuyPrice a / of_nat (p_count a),
      totalRiseSol = p_sumRise a,
      profit_group.tokens = p_tokens a \<rparr>"

definition profit_group_stage :: "bool \<Rightarrow> profit_doc list \<Rightarrow> profit_group list" where
  "profit_group_stage byUnits ds =
     map finish_group
       (foldl (\<lambda>as d. p_step (profit_groupId byUnits d) (push_token d) as) [] ds)"

text \<open>The candidate ladder and the simulation of every candidate on every member.\<close>

definition multipliers :: "rat list" where
  "multipliers = [3 / 10, 4 / 10, 5 / 10, 6 / 10, 7 / 10, 8 / 10, 9 / 10]"

definition thresholdCandidates :: "profit_group \<Rightarrow> rat list" where
  "thresholdCandidates g = map (\<lambda>multiplier. avgRiseSol g * multiplier) multipliers"

record outcome =
  isWin :: bool
  profitLoss :: rat

definition simulate_token :: "rat \<Rightarrow> sim_token \<Rightarrow> outcome" where
  "simulate_token th t =
    \<lparr> isWin = (th \<le> riseSol t),
      profitLoss =
        (if th \<le> riseSol t then th
         else if 0 < riseSol t then riseSol t else 0) \<rparr>"

record simulation =
  threshold :: rat
  results :: "outcome list"

definition thresholdSimulations :: "profit_group \<Rightarrow> simulation list" where
  "thresholdSimulations g =
     map (\<lambda>th.
            \<lparr> simulation.threshold = th,
              results = map (simulate_token th) (profit_group.tokens g) \<rparr>)
       (thresholdCandidates g)"

text \<open>
  \<open>$avg\<close> of an array of numbers; the arrays averaged here have one entry per member of
  a group, and a group has at least one member.
\<close>

definition avg :: "rat list \<Rightarrow> rat" where
  "avg xs = sum_list xs / of_nat (length xs)"

record analysis =
  threshold :: rat
  winCount :: nat
  lossCount :: nat
  totalProfit :: rat
  avgProfit :: rat

definition thresholdAnalysis :: "profit_group \<Rightarrow> analysis list" where
  "thresholdAnalysis g =
     map (\<lambda>sim.
            \<lparr> threshold = simulation.threshold sim,
              winCount = length (filter isWin (results sim)),
              lossCount = length (filter (\<lambda>r. \<not> isWin r) (results sim)),
              totalProfit = sum_list (map profitLoss (results sim)),
              avgProfit = avg (map profitLoss (results sim)) \<rparr>)
       (thresholdSimulations g)"

record score = analysis +
  winRate :: rat
  profitabilityScore :: rat

definition thresholdScores :: "profit_group \<Rightarrow> score list" where
  "thresholdScores g =
     map (\<lambda>a.
            \<lparr> threshold = threshold a,
              winCount = winCount a,
              lossCount = lossCount a,
              totalProfit = totalProfit a,
              avgProfit = avgProfit a,
              winRate = of_nat (winCount a) / of_nat (profit_group.totalTokens g),
              profitabilityScore =
                of_nat (winCount a) / of_nat (profit_group.totalTokens g) * avgProfit a \<rparr>)
       (thresholdAnalysis g)"

text \<open>
  Sorting by a numeric field, largest first: the \<open>$sort\<close> stage \<open>{field: -1}\<close> and
  \<open>$sortArray\<close> with \<open>sortBy: {field: -1}\<close>. The database does not promise a stable
  sort; the model sorts stably, which is one of the outcomes it allows.
  \<open>$arrayElemAt: [array, 0]\<close> is the first element, and no value for an empty array.
\<close>

definition sort_desc :: "('a \<Rightarrow> rat) \<Rightarrow> 'a list \<Rightarrow> 'a list" where
  "sort_desc field xs = sort_by (\<lambda>a b. field b \<le> field a) xs"

fun arrayElemAt0 :: "'a list \<Rightarrow> 'a option" where
  "arrayElemAt0 [] = None"
| "arrayElemAt0 (x # xs) = Some x"

definition optimalThresholdData :: "profit_group \<Rightarrow> score option" where
  "optimalThresholdData g = arrayElemAt0 (sort_desc profitabilityScore (thresholdScores g))"

definition conservativeThresholdData :: "profit_group \<Rightarrow> score option" where
  "conservativeThresholdData g = arrayElemAt0 (sort_desc winRate (thresholdScores g))"

definition aggressiveThresholdData :: "profit_group \<Rightarrow> score option" where
  "aggressiveThresholdData g = arrayElemAt0 (sort_desc avgProfit (thresholdScores g))"

text \<open>
  The risk label of the \<open>$project\<close> stage. A missing operand of \<open>$lt\<close> sorts below
  every number, hence the first case.
\<close>

datatype risk = HIGH | MEDIUM | LOW

definition risk_of :: "score option \<Rightarrow> risk" where
  "risk_of opt =
     (case opt of
        None \<Rightarrow> HIGH
      | Some s \<Rightarrow>
          (if winRate s < 6 / 10 then HIGH
           else if winRate s < 75 / 100 then MEDIUM else LOW))"

record profit_result =
  res_id :: profit_group_id
  totalTokens :: nat
  avgRiseSol :: rat
  maxRiseSol :: rat
  minRiseSol :: rat
  avgMaxSol :: rat
  avgBuyPriceSol :: rat
  totalRiseSol :: rat
  profitabilityScore :: rat
  recommendedSellThreshold :: "rat option"
  recommendedWinRate :: "rat option"
  recommendedWinCount :: "nat option"
  recommendedLossCount :: "nat option"
  recommendedAvgProfit :: "rat option"
  recommendedTotalProfit :: "rat option"
  conservativeThreshold :: "rat option"
  conservativeWinRate :: "rat option"
  conservativeWinCount :: "nat option"
  conservativeLossCount :: "nat option"
  conservativeAvgProfit :: "rat option"
  aggressiveThreshold :: "rat option"
  aggressiveWinRate :: "rat option"
  aggressiveWinCount :: "nat option"
  aggressiveLossCount :: "nat option"
  aggressiveAvgProfit :: "rat option"
  recommendedSellSol :: "rat option"
  conservativeSellSol :: "rat option"
  aggressiveSellSol :: "rat option"
  riskLevel :: risk
  allThresholdOptions :: "score list"
  tokens :: "sim_token list"

definition project_group :: "profit_group \<Rightarrow> profit_result" where
  "project_group g =
    (let opt = optimalThresholdData g;
         con = conservativeThresholdData g;
         agg = aggressiveThresholdData g
     in \<lparr> res_id = gid g,
          profit_result.totalTokens = profit_group.totalTokens g,
          profit_result.avgRiseSol = profit_group.avgRiseSol g,
          profit_result.maxRiseSol = profit_group.maxRiseSol g,
          profit_result.minRiseSol = profit_group.minRiseSol g,
          profit_result.avgMaxSol = profit_group.avgMaxSol g,
          profit_result.avgBuyPriceSol = profit_group.avgBuyPriceSol g,
          profit_result.totalRiseSol = profit_group.totalRiseSol g,
          profit_result.profitabilityScore =
            profit_group.avgRiseSol g * of_nat (profit_group.totalTokens g),
          recommendedSellThreshold = map_option threshold opt,
          recommendedWinRate = map_option (\<lambda>s. winRate s * 100) opt,
          recommendedWinCount = map_option winCount opt,
          recommendedLossCount = map_option lossCount opt,
          recommendedAvgProfit = map_option avgProfit opt,
          recommendedTotalProfit = map_option totalProfit opt,
          conservativeThreshold = map_option threshold con,
          conservativeWinRate = map_option (\<lambda>s. winRate s * 100) con,
          conservativeWinCount = map_option winCount con,
          conservativeLossCount = map_option lossCount con,
          conservativeAvgProfit = map_option avgProfit con,
          aggressiveThreshold = map_option threshold agg,
          aggressiveWinRate = map_option (\<lambda>s. winRate s * 100) agg,
          aggressiveWinCount = map_option winCount agg,
          aggressiveLossCount = map_option lossCount agg,
          aggressiveAvgProfit = map_option avgProfit agg,
          recommendedSellSol =
            map_option (\<lambda>s. profit_group.avgBuyPriceSol g + threshold s) opt,
          conservativeSellSol =
            map_option (\<lambda>s. profit_group.avgBuyPriceSol g + threshold s) con,
          aggressiveSellSol =
            map_option (\<lambda>s. profit_group.avgBuyPriceSol g + threshold s) agg,
          riskLevel = risk_of opt,
          allThresholdOptions = thresholdScores g,
          profit_result.tokens = take 5 (profit_group.tokens g) \<rparr>)"

text \<open>
  The stages before the simulation: the two \<open>$match\<close> stages around the derived fields,
  the \<open>$group\<close> stage and the \<open>$match\<close> on the group size. Defaults: no sub-grouping,
  \<open>minRiseSol = 0\<close>, \<open>minTokensInGroup = 2\<close>.
\<close>

definition simulated_groups :: "options \<Rightarrow> rat \<Rightarrow> profit_doc list \<Rightarrow> profit_group list" where
  "simulated_groups opts startDate ds =
     filter (\<lambda>g. (case minTokensInGroup opts of None \<Rightarrow> 2 | Some m \<Rightarrow> m)
                   \<le> of_nat (profit_group.totalTokens g))
       (profit_group_stage (case groupByComputeUnits opts of None \<Rightarrow> False | Some b \<Rightarrow> b)
          (filter (\<lambda>d. (case options.minRiseSol opts of None \<Rightarrow> 0 | Some m \<Rightarrow> m)
                         \<le> add_riseSol d)
             (filter (\<lambda>d. profit_doc.mintPattern d \<noteq> [] \<and> startDate \<le> createdAt d) ds)))"

definition sortField :: "options \<Rightarrow> profit_group \<Rightarrow> rat" where
  "sortField opts g =
     (case sortBy opts of
        Some SortTotalTokens \<Rightarrow> of_nat (profit_group.totalTokens g)
      | Some SortMaxRiseSol \<Rightarrow> profit_group.maxRiseSol g
      | _ \<Rightarrow> profit_group.avgRiseSol g)"

text \<open>
  The whole query. The database rejects a \<open>$limit\<close> that is not positive; the default
  limit is 50.
\<close>

definition findProfitableTokenGroups ::
  "options \<Rightarrow> rat \<Rightarrow> db_error + profit_doc list \<Rightarrow> db_error + profit_result list" where
  "findProfitableTokenGroups opts startDate db =
     (case db of
        Inl e \<Rightarrow> Inl e
      | Inr ds \<Rightarrow>
          (let lim = (case limit opts of None \<Rightarrow> 50 | Some l \<Rightarrow> l)
           in if lim \<le> 0 then Inl LimitNotPositive
              else Inr (map project_group
                          (take (nat lim)
                             (sort_desc (sortField opts)
                                (simulated_groups opts startDate ds))))))"

section \<open>The candidates and their scores in binary64\<close>

text \<open>
  The stages \<open>thresholdCandidates\<close>, \<open>thresholdSimulations\<close>, \<open>thresholdAnalysis\<close> and
  \<open>thresholdScores\<close> as the database evaluates them on a group document whose numbers
  are doubles: \<open>$multiply\<close> and \<open>$divide\<close> round their result, the multipliers \<open>0.3\<close> to
  \<open>0.9\<close> are the doubles nearest to these decimals, and \<open>$gte\<close> and \<open>$gt\<close> compare
  exactly. How the server adds the elements of an array in \<open>$sum\<close> and \<open>$avg\<close> is not
  code of this repository: the two operators are the parameters \<open>db_sum\<close> and \<open>db_avg\<close>.
\<close>

definition thresholdCandidates64 :: "profit_group \<Rightarrow> rat list" where
  "thresholdCandidates64 g =
     map (\<lambda>multiplier. fl (profit_group.avgRiseSol g * fl multiplier)) multipliers"

definition thresholdSimulations64 :: "profit_group \<Rightarrow> simulation list" where
  "thresholdSimulations64 g =
     map (\<lambda>th.
            \<lparr> simulation.threshold = th,
              results = map (simulate_token th) (profit_group.tokens g) \<rparr>)
       (thresholdCandidates64 g)"

definition thresholdAnalysis64 ::
  "(rat list \<Rightarrow> rat) \<Rightarrow> (rat list \<Rightarrow> rat) \<Rightarrow> profit_group \<Rightarrow> analysis list" where
  "thresholdAnalysis64 db_sum db_avg g =
     map (\<lambda>sim.
            \<lparr> threshold = simulation.threshold sim,
              winCount = length (filter isWin (results sim)),
              lossCount = length (filter (\<lambda>r. \<not> isWin r) (results sim)),
              totalProfit = db_sum (map profitLoss (results sim)),
              avgProfit = db_avg (map profitLoss (results sim)) \<rparr>)
       (thresholdSimulations64 g)"

definition thresholdScores64 ::
  "(rat list \<Rightarrow> rat) \<Rightarrow> (rat list \<Rightarrow> rat) \<Rightarrow> profit_group \<Rightarrow> score list" where
  "thresholdScores64 db_sum db_avg g =
     map (\<lambda>a.
            \<lparr> threshold = threshold a,
              winCount = winCount a,
              lossCount = lossCount a,
              totalProfit = totalProfit a,
              avgProfit = avgProfit a,
              winRate = fl (of_nat (winCount a) / of_nat (profit_group.totalTokens g)),
              score.profitabilityScore =
                fl (fl (of_nat (winCount a) / of_nat (profit_group.totalTokens g)) *
                    avgProfit a) \<rparr>)
       (thresholdAnalysis64 db_sum db_avg g)"



section \<open>Invariants\<close>

text \<open>What the \<open>$group\<close> stage of the grouping engine maintains for each accumulator.\<close>

definition acc_ok :: "group_acc \<Rightarrow> bool" where
  "acc_ok a \<longleftrightarrow>
     acc_totalTokens a = length (acc_tokens a) \<and>
     acc_migratedTokens a = length (filter migrated (acc_tokens a)) \<and>
     acc_tokens a \<noteq> []"

text \<open>The same for the \<open>$group\<close> stage of the threshold simulator, and for its output.\<close>

definition group_ok :: "profit_group \<Rightarrow> bool" where
  "group_ok g \<longleftrightarrow>
     profit_group.totalTokens g = length (profit_group.tokens g) \<and>
     profit_group.tokens g \<noteq> [] \<and>
     profit_group.avgRiseSol g = avg (map riseSol (profit_group.tokens g))"

definition p_ok :: "profit_acc \<Rightarrow> bool" where
  "p_ok a \<longleftrightarrow>
     p_count a = length (p_tokens a) \<and> p_tokens a \<noteq> [] \<and>
     p_sumRise a = sum_list (map riseSol (p_tokens a))"

section \<open>Scenarios\<close>

text \<open>Concrete documents, criteria and filters on which the properties below are run.\<close>

definition doc ::
  "string \<Rightarrow> string \<Rightarrow> bool \<Rightarrow> jsnum option \<Rightarrow> jsnum option \<Rightarrow> jsnum option \<Rightarrow> token_doc" where
  "doc m p mig mx slot buy =
    \<lparr> token_doc.mint = m, mintTime = 0, migrated = mig, token_doc.maxSol = mx,
      maxPrice = None, token_doc.mintSlotSol = slot, mintBuyAmt = buy,
      token_doc.mintPattern = p, token_doc.unitPrice = None, token_doc.unitLimit = None,
      token_doc.postMintBundle = \<lparr> BundleData.bundleSize = 0, BundleData.totalBuySol = 0 \<rparr> \<rparr>"

definition by_pattern :: GroupingCriteria where
  "by_pattern =
    \<lparr> GroupingCriteria.mintPattern = True, GroupingCriteria.unitPrice = False,
      GroupingCriteria.unitLimit = False, GroupingCriteria.postMintBundle = False \<rparr>"

definition no_filters :: QueryFilters where
  "no_filters =
    \<lparr> minMaxSol = None, startTime = None, endTime = None,
      QueryFilters.mintPattern = None, QueryFilters.unitPrice = None,
      QueryFilters.unitLimit = None, winPercent = None \<rparr>"

text \<open>The number that a decimal literal denotes.\<close>

definition dbl :: "rat \<Rightarrow> jsnum" where
  "dbl q = Fin (fl q)"

text \<open>
  Six members of one pattern with peaks 1.2, 7.5, 1.4, 4.8, 2.9 and 3.1 and an entry
  value of 1, four of them migrated.
\<close>

definition scenario_A :: "token_doc list" where
  "scenario_A =
    [ doc ''t1'' ''A'' True (Some (dbl (12 / 10))) (Some (Fin 1)) None,
      doc ''t2'' ''A'' False (Some (dbl (75 / 10))) (Some (Fin 1)) None,
      doc ''t3'' ''A'' True (Some (dbl (14 / 10))) (Some (Fin 1)) None,
      doc ''t4'' ''A'' True (Some (dbl (48 / 10))) (Some (Fin 1)) None,
      doc ''t5'' ''A'' False (Some (dbl (29 / 10))) (Some (Fin 1)) None,
      doc ''t6'' ''A'' True (Some (dbl (31 / 10))) (Some (Fin 1)) None ]"

text \<open>
  Six members of one pattern that rise by 0.2, 6.5, 0.4, 3.8, 1.9 and 2.1 (the peak,
  over no recorded entry value), four of them migrated.
\<close>

definition scenario_rises :: "token_doc list" where
  "scenario_rises =
    [ doc ''r1'' ''R'' True (Some (dbl (2 / 10))) None None,
      doc ''r2'' ''R'' False (Some (dbl (65 / 10))) None None,
      doc ''r3'' ''R'' True (Some (dbl (4 / 10))) None None,
      doc ''r4'' ''R'' True (Some (dbl (38 / 10))) None None,
      doc ''r5'' ''R'' False (Some (dbl (19 / 10))) None None,
      doc ''r6'' ''R'' True (Some (dbl (21 / 10))) None None ]"

text \<open>Five members that rise by 5, 3, 1, 4 and 2, and a win percentage of 80.\<close>

definition scenario_five :: "token_doc list" where
  "scenario_five =
    [ doc ''f1'' ''F'' False (Some (Fin 5)) None None,
      doc ''f2'' ''F'' False (Some (Fin 3)) None None,
      doc ''f3'' ''F'' False (Some (Fin 1)) None None,
      doc ''f4'' ''F'' False (Some (Fin 4)) None None,
      doc ''f5'' ''F'' False (Some (Fin 2)) None None ]"

definition win_80 :: QueryFilters where
  "win_80 = no_filters \<lparr> winPercent := Some (Fin 80) \<rparr>"

text \<open>One pattern with 160 members, 23 of them migrated: a rate of 14.375 percent.\<close>

definition scenario_160 :: "token_doc list" where
  "scenario_160 =
     replicate 23 (doc ''m'' ''S'' True None None None) @
     replicate 137 (doc ''s'' ''S'' False None None None)"

definition min_profit_3 :: QueryFilters where
  "min_profit_3 = no_filters \<lparr> minMaxSol := Some 3 \<rparr>"

definition scenario_two :: "token_doc list" where
  "scenario_two = scenario_A @ [doc ''u1'' ''B'' True (Some (Fin 2)) (Some (Fin 1)) None]"

text \<open>The rises of \<open>scenario_rises\<close>, in the order of its members.\<close>

definition rises_A :: "jsnum list" where
  "rises_A =
    [dbl (2 / 10), dbl (65 / 10), dbl (4 / 10), dbl (38 / 10), dbl (19 / 10), dbl (21 / 10)]"

text \<open>
  A member whose peak and entry value are both infinite (its rise is NaN), one whose
  entry value 0.01 is below 0.05, and one with a plausible entry value.
\<close>

definition scenario_NaN :: "token_doc list" where
  "scenario_NaN =
    [ doc ''n1'' ''N'' False (Some PInf) (Some PInf) None,
      doc ''n2'' ''N'' True (Some (Fin 5)) (Some (dbl (1 / 100))) (Some (Fin 2)),
      doc ''n3'' ''N'' True (Some (Fin 5)) (Some (Fin 1)) (Some (Fin 2)) ]"

text \<open>
  Pattern A with 200 members and pattern B with 201, one migrated member in each: the
  rates are 0.5 and 0.4975..., and both round to 0.5.
\<close>

definition scenario_ties :: "token_doc list" where
  "scenario_ties =
     doc ''a0'' ''A'' True None None None # replicate 199 (doc ''a'' ''A'' False None None None) @
     doc ''b0'' ''B'' True None None None # replicate 200 (doc ''b'' ''B'' False None None None)"

definition no_dimension :: GroupingCriteria where
  "no_dimension =
    \<lparr> GroupingCriteria.mintPattern = False, GroupingCriteria.unitPrice = False,
      GroupingCriteria.unitLimit = False, GroupingCriteria.postMintBundle = False \<rparr>"

definition win_150 :: QueryFilters where
  "win_150 = no_filters \<lparr> winPercent := Some (Fin 150) \<rparr>"

text \<open>Documents and options for the threshold simulator.\<close>

definition pdoc :: "string \<Rightarrow> string \<Rightarrow> rat \<Rightarrow> rat \<Rightarrow> rat \<Rightarrow> profit_doc" where
  "pdoc m p mx slot first =
    \<lparr> profit_doc.mint = m, profit_doc.mintPattern = p, profit_doc.unitPrice = None,
      profit_doc.unitLimit = None, createdAt = 10, profit_doc.mintSlotSol = slot,
      firstSlotSol = first, profit_doc.maxSol = mx \<rparr>"

definition default_options :: options where
  "default_options =
    \<lparr> groupByComputeUnits = None, options.minRiseSol = None, minTokensInGroup = None,
      limit = None, sortBy = None \<rparr>"





definition scenario_partial :: "profit_doc list" where
  "scenario_partial = [ pdoc ''p1'' ''P'' 2 1 2, pdoc ''p2'' ''P'' 4 1 2, pdoc ''p3'' ''P'' 11 1 2 ]"

text \<open>
  A document whose \<open>mintSlotSol\<close> is 1 and whose \<open>firstSlotSol\<close> is 0.5, with a peak of 5.
\<close>

definition doc_first_lower :: profit_doc where
  "doc_first_lower = pdoc ''c1'' ''C'' 5 1 (1 / 2)"



section \<open>Notions used in the statements\<close>

text \<open>
  The quantities of the specification, over the rational numbers: the rank
  \<open>floor(n * (1 - p / 100))\<close>, rounding to two decimal places (a tie going up) and the
  percentages that are a tie, and the base value chosen by the threshold 0.05.
\<close>

definition claimed_rank :: "nat \<Rightarrow> rat \<Rightarrow> int" where
  "claimed_rank n p = \<lfloor>of_nat n * (1 - p / 100)\<rfloor>"

definition round_2dp :: "rat \<Rightarrow> rat" where
  "round_2dp x = of_int \<lfloor>x * 100 + 1 / 2\<rfloor> / 100"

definition tie_2dp :: "rat \<Rightarrow> bool" where
  "tie_2dp x \<longleftrightarrow> of_int \<lfloor>x * 100 + 1 / 2\<rfloor> = x * 100 + 1 / 2"

definition claimed_baseline :: "rat \<Rightarrow> rat \<Rightarrow> rat" where
  "claimed_baseline entry fallback = (if entry < 5 / 100 then fallback else entry)"

text \<open>
  An invalid configuration in the words of the specification: no grouping dimension is
  enabled, or a supplied \<open>winPercent\<close> is not within 0 to 100.
\<close>

definition config_invalid :: "GroupingCriteria \<Rightarrow> QueryFilters \<Rightarrow> bool" where
  "config_invalid c f \<longleftrightarrow>
     (\<not> GroupingCriteria.mintPattern c \<and> \<not> GroupingCriteria.unitPrice c \<and>
      \<not> GroupingCriteria.unitLimit c \<and> \<not> GroupingCriteria.postMintBundle c) \<or>
     (case winPercent f of
        None \<Rightarrow> False
      | Some w \<Rightarrow> js_lt w (Fin 0) \<or> js_lt (Fin 100) w \<or> isNaN w)"

text \<open>
  Orders on returned groups: by the returned \<open>migrationRate\<close>; by the returned
  \<open>migrationRate\<close> and then \<open>totalTokens\<close>, both descending; and the same with the rate
  before \<open>Math.round\<close>, the double that the database computes from the two counts and
  sorts on. \<open>exact_rate\<close> is the percentage as a rational number.
\<close>

definition by_rate :: "TokenGroupStats \<Rightarrow> TokenGroupStats \<Rightarrow> bool" where
  "by_rate g h \<longleftrightarrow> TokenGroupStats.migrationRate h \<le> TokenGroupStats.migrationRate g"

definition rate_then_total :: "(rat \<times> nat) \<Rightarrow> (rat \<times> nat) \<Rightarrow> bool" where
  "rate_then_total a b \<longleftrightarrow> fst b < fst a \<or> (fst a = fst b \<and> snd b \<le> snd a)"

definition sorted_rate_total :: "TokenGroupStats list \<Rightarrow> bool" where
  "sorted_rate_total gs =
     sorted_wrt rate_then_total
       (map (\<lambda>g. (TokenGroupStats.migrationRate g, TokenGroupStats.totalTokens g)) gs)"

definition unrounded_rate :: "TokenGroupStats \<Rightarrow> rat" where
  "unrounded_rate g =
     fl (fl (of_nat (TokenGroupStats.migratedTokens g) /
             of_nat (TokenGroupStats.totalTokens g)) * 100)"

definition by_unrounded_rate_then_total :: "TokenGroupStats \<Rightarrow> TokenGroupStats \<Rightarrow> bool" where
  "by_unrounded_rate_then_total g h \<longleftrightarrow>
     unrounded_rate h < unrounded_rate g \<or>
     (unrounded_rate g = unrounded_rate h \<and>
      TokenGroupStats.totalTokens h \<le> TokenGroupStats.totalTokens g)"

definition exact_rate :: "TokenGroupStats \<Rightarrow> rat" where
  "exact_rate g =
     of_nat (TokenGroupStats.migratedTokens g) / of_nat (TokenGroupStats.totalTokens g) * 100"

definition by_exact_rate_then_total :: "TokenGroupStats \<Rightarrow> TokenGroupStats \<Rightarrow> bool" where
  "by_exact_rate_then_total g h \<longleftrightarrow>
     exact_rate h < exact_rate g \<or>
     (exact_rate g = exact_rate h \<and> TokenGroupStats.totalTokens h \<le> TokenGroupStats.totalTokens g)"

section \<open>Properties of rounding to binary64\<close>

subsection \<open>Powers of two and the exponent of a number\<close>

lemma pow2_powi: "pow2 e = 2 powi e"
  by (simp add: pow2_def power_int_def field_simps)

lemma pow2_pos [simp]: "0 < pow2 e"
  by (simp add: pow2_powi)

lemma pow2_add: "pow2 (a + b) = pow2 a * pow2 b"
  by (simp add: pow2_powi power_int_add)

lemma pow2_mono: "a \<le> b \<Longrightarrow> pow2 a \<le> pow2 b"
  by (simp add: pow2_powi power_int_increasing)

lemma pow2_strict_mono: "a < b \<Longrightarrow> pow2 a < pow2 b"
  by (simp add: pow2_powi power_int_strict_increasing)

lemma pow2_nat: "pow2 (int n) = 2 ^ n"
  by (simp add: pow2_def)

lemma pow2_0 [simp]: "pow2 0 = 1"
  by (simp add: pow2_def)

lemma pow2_Suc: "pow2 (e + 1) = 2 * pow2 e"
  by (simp add: pow2_powi power_int_add)

lemma pow2_minus: "pow2 (- e) = 1 / pow2 e"
  by (simp add: pow2_powi power_int_minus field_simps)

lemma pow2_diff: "pow2 (a - b) = pow2 a / pow2 b"
  using pow2_add[of a "- b"] by (simp add: pow2_minus)

lemma bitlen_pow2_bounds:
  assumes "0 < a"
  shows "pow2 (bitlen a - 1) \<le> of_int a" and "of_int a < pow2 (bitlen a)"
proof -
  from bitlen_bounds[OF assms] have l: "2 ^ nat (bitlen a - 1) \<le> a" and u: "a < 2 ^ nat (bitlen a)"
    by auto
  have p: "0 < bitlen a" using assms by (simp add: bitlen_alt_def)
  from l have "(of_int (2 ^ nat (bitlen a - 1)) :: rat) \<le> of_int a" by (simp only: of_int_le_iff)
  then show "pow2 (bitlen a - 1) \<le> of_int a" using p by (simp add: pow2_def)
  from u have "(of_int a :: rat) < of_int (2 ^ nat (bitlen a))" by (simp only: of_int_less_iff)
  then show "of_int a < pow2 (bitlen a)" using p by (simp add: pow2_def)
qed

lemma ilog2_bounds:
  assumes "0 < x"
  shows "pow2 (ilog2 x) \<le> x" and "x < pow2 (ilog2 x + 1)"
proof -
  obtain a b where q: "quotient_of x = (a, b)" by (cases "quotient_of x")
  then have b: "0 < b" and x: "x = of_int a / of_int b"
    using quotient_of_denom_pos[of x a b] quotient_of_div[of x a b] by auto
  with assms have a: "0 < a" by (simp add: zero_less_divide_iff)
  let ?d = "bitlen a - bitlen b"
  note A = bitlen_pow2_bounds[OF a] and B = bitlen_pow2_bounds[OF b]
  have bq: "(0 :: rat) < of_int b" using b by simp
  have lo: "pow2 (?d - 1) < x"
  proof -
    have "pow2 (?d - 1) * of_int b < pow2 (?d - 1) * pow2 (bitlen b)"
      using B(2) by (simp add: mult_strict_left_mono)
    also have "\<dots> = pow2 (bitlen a - 1)"
      by (simp add: pow2_add[symmetric])
    also have "\<dots> \<le> of_int a" by (rule A(1))
    finally show ?thesis using bq by (simp add: x pos_less_divide_eq)
  qed
  have hi: "x < pow2 (?d + 1)"
  proof -
    have "of_int a < pow2 (bitlen a)" by (rule A(2))
    also have "\<dots> = pow2 (?d + 1) * pow2 (bitlen b - 1)"
      by (simp add: pow2_add[symmetric])
    also have "\<dots> \<le> pow2 (?d + 1) * of_int b"
      using B(1) by (simp add: mult_left_mono)
    finally show ?thesis using bq by (simp add: x pos_divide_less_eq)
  qed
  have il: "ilog2 x = (if pow2 ?d \<le> x then ?d else ?d - 1)"
    by (simp add: ilog2_def q Let_def)
  show "pow2 (ilog2 x) \<le> x"
    using lo by (auto simp: il)
  show "x < pow2 (ilog2 x + 1)"
    using hi by (auto simp: il not_le)
qed

lemma ilog2_unique:
  assumes "pow2 e \<le> x" and "x < pow2 (e + 1)"
  shows "ilog2 x = e"
proof -
  have x: "0 < x" using assms(1) pow2_pos[of e] by linarith
  note b = ilog2_bounds[OF x]
  have "\<not> ilog2 x < e"
  proof
    assume "ilog2 x < e"
    then have "pow2 (ilog2 x + 1) \<le> pow2 e" by (intro pow2_mono) simp
    with b(2) assms(1) show False by linarith
  qed
  moreover have "\<not> e < ilog2 x"
  proof
    assume "e < ilog2 x"
    then have "pow2 (e + 1) \<le> pow2 (ilog2 x)" by (intro pow2_mono) simp
    with b(1) assms(2) show False by linarith
  qed
  ultimately show ?thesis by linarith
qed

lemma ilog2_mono:
  assumes "0 < x" and "x \<le> y"
  shows "ilog2 x \<le> ilog2 y"
proof (rule ccontr)
  assume "\<not> ilog2 x \<le> ilog2 y"
  then have "pow2 (ilog2 y + 1) \<le> pow2 (ilog2 x)" by (intro pow2_mono) simp
  moreover have "0 < y" using assms by linarith
  ultimately show False
    using ilog2_bounds(1)[OF assms(1)] ilog2_bounds(2)[OF \<open>0 < y\<close>] assms(2) by linarith
qed

subsection \<open>Rounding to the nearest integer\<close>

lemma rhe_cases:
  "round_half_even y = \<lfloor>y\<rfloor> \<or> round_half_even y = \<lfloor>y\<rfloor> + 1"
  by (simp add: round_half_even_def Let_def)

lemma rhe_err: "\<bar>of_int (round_half_even y) - y\<bar> \<le> 1 / 2"
proof -
  have "of_int \<lfloor>y\<rfloor> \<le> y" "y < of_int \<lfloor>y\<rfloor> + 1" by linarith+
  then show ?thesis
    by (auto simp: round_half_even_def Let_def abs_le_iff) 
qed

lemma rhe_of_int [simp]: "round_half_even (of_int n) = n"
  by (simp add: round_half_even_def)

lemma rhe_eqI:
  assumes "\<bar>y - of_int k\<bar> < 1 / 2"
  shows "round_half_even y = k"
proof -
  from rhe_err[of y] assms have "\<bar>(of_int (round_half_even y) :: rat) - of_int k\<bar> < 1"
    by linarith
  then have "\<bar>(of_int (round_half_even y - k) :: rat)\<bar> < 1" by simp
  then have "\<bar>round_half_even y - k\<bar> < 1"
    by (metis of_int_abs of_int_less_1_iff)
  then show ?thesis by linarith
qed

lemma rhe_mono:
  assumes "y \<le> z"
  shows "round_half_even y \<le> round_half_even z"
proof (cases "\<lfloor>y\<rfloor> = \<lfloor>z\<rfloor>")
  case True
  with assms show ?thesis
    by (auto simp: round_half_even_def Let_def)
next
  case False
  with assms have "\<lfloor>y\<rfloor> + 1 \<le> \<lfloor>z\<rfloor>" using floor_mono[OF assms] by linarith
  moreover have "round_half_even y \<le> \<lfloor>y\<rfloor> + 1" using rhe_cases[of y] by auto
  moreover have "\<lfloor>z\<rfloor> \<le> round_half_even z" using rhe_cases[of z] by auto
  ultimately show ?thesis by linarith
qed

lemma floor_neg_nonint:
  fixes y :: rat
  assumes "y \<noteq> of_int \<lfloor>y\<rfloor>"
  shows "\<lfloor>- y\<rfloor> = - \<lfloor>y\<rfloor> - 1"
  using assms by (simp add: floor_minus ceiling_altdef)

lemma rhe_neg: "round_half_even (- y) = - round_half_even y"
proof (cases "y = of_int \<lfloor>y\<rfloor>")
  case True
  then obtain n where "y = of_int n" by metis
  then show ?thesis by (simp flip: of_int_minus)
next
  case False
  note f = floor_neg_nonint[OF False]
  let ?r = "y - of_int \<lfloor>y\<rfloor>"
  have r: "- y - of_int (- \<lfloor>y\<rfloor> - 1) = 1 - ?r" by simp
  have e: "even (- \<lfloor>y\<rfloor> - 1) \<longleftrightarrow> odd \<lfloor>y\<rfloor>" by simp
  consider "?r < 1 / 2" | "?r = 1 / 2" | "1 / 2 < ?r" by linarith
  then show ?thesis
  proof cases
    case 1
    then show ?thesis
      unfolding round_half_even_def Let_def f r e by simp
  next
    case 2
    then show ?thesis
      unfolding round_half_even_def Let_def f r e by simp
  next
    case 3
    then show ?thesis
      unfolding round_half_even_def Let_def f r e by simp
  qed
qed

subsection \<open>The rounding \<open>fl\<close>: sign, bounds, monotonicity, exactness, error\<close>

lemma pow2_nonneg [simp]: "0 \<le> pow2 e"
  using pow2_pos[of e] by (rule less_imp_le)

lemma pow2_neq_0 [simp]: "pow2 e \<noteq> 0"
  using pow2_pos[of e] by (rule less_imp_neq[symmetric])

lemma fl_0 [simp]: "fl 0 = 0"
  by (simp add: fl_def)

lemma fl_neg: "fl (- x) = - fl x"
  by (simp add: fl_def Let_def rhe_neg)

lemma fl_pos_eq:
  assumes "0 < x"
  shows "fl x = of_int (round_half_even (x / pow2 (ilog2 x - 52))) * pow2 (ilog2 x - 52)"
  using assms by (simp add: fl_def Let_def)

lemma scaled_bounds:
  assumes "0 < x"
  shows "2 ^ 52 \<le> x / pow2 (ilog2 x - 52)" and "x / pow2 (ilog2 x - 52) < 2 ^ 53"
proof -
  let ?e = "ilog2 x"
  have u: "pow2 (?e - 52) = pow2 ?e / 2 ^ 52"
    by (simp add: pow2_diff pow2_nat[of 52, simplified])
  note b = ilog2_bounds[OF assms]
  have p: "0 < pow2 ?e" by simp
  show "2 ^ 52 \<le> x / pow2 (?e - 52)"
    using b(1) p by (simp add: u field_simps)
  have "x < 2 * pow2 ?e" using b(2) by (simp add: pow2_Suc)
  then show "x / pow2 (?e - 52) < 2 ^ 53"
    using p by (simp add: u field_simps)
qed

lemma rhe_scaled_bounds:
  assumes "0 < x"
  shows "2 ^ 52 \<le> round_half_even (x / pow2 (ilog2 x - 52))"
    and "round_half_even (x / pow2 (ilog2 x - 52)) \<le> 2 ^ 53"
proof -
  let ?y = "x / pow2 (ilog2 x - 52)"
  note s = scaled_bounds[OF assms]
  have "round_half_even (of_int (2 ^ 52)) \<le> round_half_even ?y"
    using s(1) by (intro rhe_mono) simp
  then show "2 ^ 52 \<le> round_half_even ?y" by (simp only: rhe_of_int)
  have "round_half_even ?y \<le> round_half_even (of_int (2 ^ 53))"
    using s(2) by (intro rhe_mono) simp
  then show "round_half_even ?y \<le> 2 ^ 53" by (simp only: rhe_of_int)
qed

lemma fl_pos_bounds:
  assumes "0 < x"
  shows "pow2 (ilog2 x) \<le> fl x" and "fl x \<le> pow2 (ilog2 x + 1)"
proof -
  let ?e = "ilog2 x"
  let ?u = "pow2 (?e - 52)"
  let ?m = "round_half_even (x / ?u)"
  have u: "?u = pow2 ?e / 2 ^ 52"
    by (simp add: pow2_diff pow2_nat[of 52, simplified])
  note r = rhe_scaled_bounds[OF assms]
  have m1: "(2 ^ 52 :: rat) \<le> of_int ?m"
    using r(1) by (metis of_int_le_iff of_int_numeral of_int_power)
  have m2: "(of_int ?m :: rat) \<le> 2 ^ 53"
    using r(2) by (metis of_int_le_iff of_int_numeral of_int_power)
  have up: "0 < ?u" by simp
  have "pow2 ?e = 2 ^ 52 * ?u" by (simp add: u)
  also have "\<dots> \<le> of_int ?m * ?u" using m1 up by (intro mult_right_mono) simp_all
  finally show "pow2 ?e \<le> fl x" by (simp only: fl_pos_eq[OF assms])
  have "of_int ?m * ?u \<le> 2 ^ 53 * ?u" using m2 up by (intro mult_right_mono) simp_all
  also have "\<dots> = pow2 (?e + 1)" by (simp add: u pow2_Suc)
  finally show "fl x \<le> pow2 (?e + 1)" by (simp only: fl_pos_eq[OF assms])
qed

lemma fl_pos: "0 < x \<Longrightarrow> 0 < fl x"
  using fl_pos_bounds(1)[of x] pow2_pos[of "ilog2 x"] by linarith

lemma fl_neg_lt: "x < 0 \<Longrightarrow> fl x < 0"
  using fl_pos[of "- x"] by (simp add: fl_neg)

lemma fl_nonneg: "0 \<le> x \<Longrightarrow> 0 \<le> fl x"
  using fl_pos[of x] by (cases "x = 0") auto

lemma fl_eq_0_iff: "fl x = 0 \<longleftrightarrow> x = 0"
  using fl_pos[of x] fl_neg_lt[of x] by (cases "x = 0"; cases "0 < x") auto

lemma fl_pos_iff: "0 < fl x \<longleftrightarrow> 0 < x"
  using fl_pos[of x] fl_neg_lt[of x] by (cases "x = 0"; cases "0 < x") auto

lemma fl_mono_pos:
  assumes "0 < x" and "x \<le> y"
  shows "fl x \<le> fl y"
proof -
  have y: "0 < y" using assms by linarith
  have le: "ilog2 x \<le> ilog2 y" using assms by (rule ilog2_mono)
  show ?thesis
  proof (cases "ilog2 x = ilog2 y")
    case True
    let ?u = "pow2 (ilog2 y - 52)"
    have "x / ?u \<le> y / ?u" using assms(2) by (simp add: divide_right_mono)
    then have "round_half_even (x / ?u) \<le> round_half_even (y / ?u)" by (rule rhe_mono)
    then have "(of_int (round_half_even (x / ?u)) :: rat) \<le> of_int (round_half_even (y / ?u))"
      by (simp only: of_int_le_iff)
    then have "of_int (round_half_even (x / ?u)) * ?u \<le> of_int (round_half_even (y / ?u)) * ?u"
      by (intro mult_right_mono) simp_all
    then show ?thesis
      by (simp only: fl_pos_eq[OF assms(1)] fl_pos_eq[OF y] True)
  next
    case False
    with le have "ilog2 x + 1 \<le> ilog2 y" by simp
    then have "pow2 (ilog2 x + 1) \<le> pow2 (ilog2 y)" by (rule pow2_mono)
    with fl_pos_bounds(2)[OF assms(1)] fl_pos_bounds(1)[OF y] show ?thesis by linarith
  qed
qed

lemma fl_mono:
  assumes "x \<le> y"
  shows "fl x \<le> fl y"
proof -
  consider "0 < x" | "x \<le> 0" "0 \<le> y" | "y < 0" using assms by linarith
  then show ?thesis
  proof cases
    case 1
    then show ?thesis using assms by (rule fl_mono_pos)
  next
    case 2
    have "fl x \<le> 0" using fl_nonneg[of "- x"] 2(1) by (simp add: fl_neg)
    moreover have "0 \<le> fl y" using 2(2) by (rule fl_nonneg)
    ultimately show ?thesis by linarith
  next
    case 3
    then have "fl (- y) \<le> fl (- x)" using assms by (intro fl_mono_pos) simp_all
    then show ?thesis by (simp add: fl_neg)
  qed
qed

lemma fl_exact_pos:
  assumes "0 < k" and "k < 2 ^ 53"
  shows "fl (of_int k * pow2 j) = of_int k * pow2 j"
proof -
  let ?x = "(of_int k :: rat) * pow2 j"
  have x: "0 < ?x" using assms(1) by simp
  let ?e = "ilog2 ?x"
  have "(of_int k :: rat) < 2 ^ 53"
    using assms(2) by (metis of_int_less_iff of_int_numeral of_int_power)
  then have "?x < 2 ^ 53 * pow2 j" by (intro mult_strict_right_mono) simp_all
  also have "\<dots> = pow2 (53 + j)" by (simp add: pow2_add pow2_nat[of 53, simplified])
  finally have "pow2 ?e < pow2 (53 + j)" using ilog2_bounds(1)[OF x] by linarith
  then have e: "?e < 53 + j"
    using pow2_mono[of "53 + j" ?e] by (cases "?e < 53 + j") auto
  define n where "n = nat (j - ?e + 52)"
  have n: "int n = j - ?e + 52" using e by (simp add: n_def)
  have "j - (?e - 52) = int n" using n by simp
  then have "pow2 j / pow2 (?e - 52) = pow2 (int n)"
    by (simp only: pow2_diff[symmetric])
  then have "of_int k * (pow2 j / pow2 (?e - 52)) = of_int k * (2 ^ n :: rat)"
    by (simp add: pow2_nat)
  then have sc: "?x / pow2 (?e - 52) = of_int (k * 2 ^ n)"
    by simp
  have "fl ?x = of_int (round_half_even (of_int (k * 2 ^ n))) * pow2 (?e - 52)"
    unfolding fl_pos_eq[OF x] sc ..
  also have "\<dots> = of_int (k * 2 ^ n) * pow2 (?e - 52)" by (simp only: rhe_of_int)
  also have "\<dots> = (?x / pow2 (?e - 52)) * pow2 (?e - 52)" by (simp only: sc)
  also have "\<dots> = ?x" by simp
  finally show ?thesis .
qed

lemma fl_exact:
  assumes "\<bar>k\<bar> < 2 ^ 53"
  shows "fl (of_int k * pow2 j) = of_int k * pow2 j"
proof -
  consider "k = 0" | "0 < k" | "k < 0" by linarith
  then show ?thesis
  proof cases
    case 1
    then show ?thesis by simp
  next
    case 2
    with assms show ?thesis by (intro fl_exact_pos) simp_all
  next
    case 3
    with assms have "fl (of_int (- k) * pow2 j) = of_int (- k) * pow2 j"
      by (intro fl_exact_pos) simp_all
    then show ?thesis using fl_neg[of "of_int k * pow2 j"] by simp
  qed
qed

lemma fl_of_int:
  assumes "\<bar>n\<bar> < 2 ^ 53"
  shows "fl (of_int n) = of_int n"
  using fl_exact[OF assms, of 0] by simp

lemma fl_of_nat:
  assumes "n < 2 ^ 53"
  shows "fl (of_nat n) = of_nat n"
proof -
  have "\<bar>int n\<bar> < 2 ^ 53" using assms by (simp add: nat_less_iff flip: of_nat_less_iff)
  from fl_of_int[OF this] show ?thesis by simp
qed

lemma fl_err: "\<bar>fl x - x\<bar> \<le> \<bar>x\<bar> / 2 ^ 53"
proof -
  have pos: "\<bar>fl x - x\<bar> \<le> x / 2 ^ 53" if x: "0 < x" for x
  proof -
    let ?e = "ilog2 x"
    let ?u = "pow2 (?e - 52)"
    have u: "?u = pow2 ?e / 2 ^ 52"
      by (simp add: pow2_diff pow2_nat[of 52, simplified])
    have up: "0 < ?u" by simp
    have "fl x - x = (of_int (round_half_even (x / ?u)) - x / ?u) * ?u"
      using up by (simp add: fl_pos_eq[OF x] left_diff_distrib)
    then have "\<bar>fl x - x\<bar> = \<bar>of_int (round_half_even (x / ?u)) - x / ?u\<bar> * \<bar>?u\<bar>"
      by (simp only: abs_mult)
    also have "\<dots> = \<bar>of_int (round_half_even (x / ?u)) - x / ?u\<bar> * ?u"
      by simp
    also have "\<dots> \<le> (1 / 2) * ?u"
      using rhe_err[of "x / ?u"] up by (intro mult_right_mono) simp_all
    also have "\<dots> = pow2 ?e / 2 ^ 53" by (simp add: u)
    also have "\<dots> \<le> x / 2 ^ 53"
      using ilog2_bounds(1)[OF x] by (simp add: divide_right_mono)
    finally show ?thesis .
  qed
  consider "x = 0" | "0 < x" | "x < 0" by linarith
  then show ?thesis
  proof cases
    case 1
    then show ?thesis by simp
  next
    case 2
    with pos[of x] show ?thesis by simp
  next
    case 3
    with pos[of "- x"] show ?thesis by (simp add: fl_neg)
  qed
qed

lemma fl_1 [simp]: "fl 1 = 1"
  using fl_of_int[of 1] by simp

lemma fl_100 [simp]: "fl 100 = 100"
  using fl_of_int[of 100] by simp

lemma fl_10000 [simp]: "fl 10000 = 10000"
  using fl_of_int[of 10000] by simp

lemma fl_err_le:
  assumes "\<bar>x\<bar> \<le> B"
  shows "\<bar>fl x - x\<bar> \<le> B / 2 ^ 53"
proof -
  have "\<bar>x\<bar> / 2 ^ 53 \<le> B / 2 ^ 53" using assms by (simp add: divide_right_mono)
  with fl_err[of x] show ?thesis by linarith
qed

lemma fl_idem [simp]: "fl (fl x) = fl x"
proof -
  have pos: "fl (fl x) = fl x" if x: "0 < x" for x
  proof -
    let ?e = "ilog2 x"
    let ?m = "round_half_even (x / pow2 (?e - 52))"
    note r = rhe_scaled_bounds[OF x]
    show ?thesis
    proof (cases "?m = 2 ^ 53")
      case True
      have "pow2 (?e - 52 + 1) = 2 * pow2 (?e - 52)" by (rule pow2_Suc)
      then have "fl x = of_int (2 ^ 52) * pow2 (?e - 52 + 1)"
        by (simp add: fl_pos_eq[OF x] True)
      moreover have "fl (of_int (2 ^ 52) * pow2 (?e - 52 + 1)) = of_int (2 ^ 52) * pow2 (?e - 52 + 1)"
        by (rule fl_exact) simp
      ultimately show ?thesis by (simp only:)
    next
      case False
      have "?m < 2 ^ 53" using r(2) False by simp
      moreover have "0 \<le> ?m" using r(1) by simp
      ultimately have "\<bar>?m\<bar> < 2 ^ 53" by simp
      from fl_exact[OF this, of "?e - 52"] show ?thesis
        by (simp only: fl_pos_eq[OF x])
    qed
  qed
  consider "x = 0" | "0 < x" | "x < 0" by linarith
  then show ?thesis
  proof cases
    case 1
    then show ?thesis by simp
  next
    case 2
    then show ?thesis by (rule pos)
  next
    case 3
    with pos[of "- x"] show ?thesis by (simp add: fl_neg)
  qed
qed

lemma fl_below_nat:
  assumes le: "x \<le> of_nat n * (1 - 1 / 2 ^ 53)" and n0: "0 < n" and n53: "n < 2 ^ 53"
  shows "fl x < of_nat n"
proof (cases "0 < x")
  case False
  then have "fl x \<le> fl 0" by (intro fl_mono) simp
  with n0 show ?thesis by simp
next
  case True
  let ?e = "ilog2 x"
  let ?u = "pow2 (?e - 52)"
  let ?y = "x / ?u"
  have npos: "(0 :: rat) < of_nat n" using n0 by simp
  have "(of_nat n :: rat) * (1 - 1 / 2 ^ 53) < of_nat n * 1"
    using npos by (intro mult_strict_left_mono) simp_all
  with le have xn: "x < of_nat n" by simp
  have "(of_nat n :: rat) < of_nat (2 ^ 53)" using n53 by (simp only: of_nat_less_iff)
  then have "(of_nat n :: rat) < pow2 53" by (simp add: pow2_nat[of 53, simplified])
  with ilog2_bounds(1)[OF True] xn have "pow2 ?e < pow2 53" by linarith
  then have e: "?e \<le> 52"
    using pow2_mono[of 53 ?e] by (cases "?e \<le> 52") auto
  define k where "k = nat (52 - ?e)"
  have k: "- (?e - 52) = int k" using e by (simp add: k_def)
  have u: "1 / ?u = 2 ^ k"
    using pow2_minus[of "?e - 52"] by (simp only: k pow2_nat)
  define M where "M = int n * 2 ^ k"
  have "(of_nat n :: rat) / ?u = of_nat n * (1 / ?u)" by simp
  also have "\<dots> = of_nat n * 2 ^ k" by (simp only: u)
  also have "\<dots> = of_int M" by (simp add: M_def)
  finally have M: "(of_int M :: rat) = of_nat n / ?u" by (rule sym)
  have "?y \<le> of_nat n * (1 - 1 / 2 ^ 53) / ?u"
    using le by (intro divide_right_mono) simp_all
  then have y_le: "?y \<le> of_int M * (1 - 1 / 2 ^ 53)"
    by (simp add: M)
  have y_ge: "2 ^ 52 \<le> ?y" by (rule scaled_bounds(1)[OF True])
  have Mpos: "(0 :: rat) < of_int M" using npos by (simp add: M)
  have "(of_int M :: rat) * (1 - 1 / 2 ^ 53) < of_int M * 1"
    using Mpos by (intro mult_strict_left_mono) simp_all
  then have lt: "(of_int M :: rat) * (1 - 1 / 2 ^ 53) < of_int M"
    by (simp only: mult_1_right)
  from y_le y_ge lt have "(2 ^ 52 :: rat) < of_int M" by linarith
  then have "(of_int (2 ^ 52) :: rat) < of_int M" by simp
  then have "2 ^ 52 < M" by (simp only: of_int_less_iff)
  then have "(2 ^ 52 :: rat) < of_int M" by simp
  then have half: "1 / 2 < (of_int M :: rat) / 2 ^ 53"
    by (simp add: pos_less_divide_eq)
  have "(of_int M :: rat) * (1 - 1 / 2 ^ 53) = of_int M - of_int M / 2 ^ 53"
    by (simp add: algebra_simps)
  with y_le half have "?y < of_int M - 1 / 2" by linarith
  with rhe_err[of ?y] have "(of_int (round_half_even ?y) :: rat) < of_int M"
    by linarith
  then have "(of_int (round_half_even ?y) :: rat) * ?u < of_int M * ?u"
    by (intro mult_strict_right_mono) simp_all
  then show ?thesis
    by (simp add: fl_pos_eq[OF True] M)
qed

lemma floor_close:
  fixes a b :: rat
  assumes "\<bar>a - b\<bar> < 1"
  shows "\<bar>\<lfloor>a\<rfloor> - \<lfloor>b\<rfloor>\<bar> \<le> 1"
proof -
  have "of_int \<lfloor>a\<rfloor> \<le> a" "a < of_int \<lfloor>a\<rfloor> + 1" "of_int \<lfloor>b\<rfloor> \<le> b" "b < of_int \<lfloor>b\<rfloor> + 1"
    by linarith+
  with assms have "(of_int \<lfloor>a\<rfloor> :: rat) < of_int \<lfloor>b\<rfloor> + 2" "(of_int \<lfloor>b\<rfloor> :: rat) < of_int \<lfloor>a\<rfloor> + 2"
    by linarith+
  then have "(of_int \<lfloor>a\<rfloor> :: rat) < of_int (\<lfloor>b\<rfloor> + 2)" "(of_int \<lfloor>b\<rfloor> :: rat) < of_int (\<lfloor>a\<rfloor> + 2)"
    by simp_all
  then have "\<lfloor>a\<rfloor> < \<lfloor>b\<rfloor> + 2" "\<lfloor>b\<rfloor> < \<lfloor>a\<rfloor> + 2" by (simp_all only: of_int_less_iff)
  then show ?thesis by linarith
qed


section \<open>Properties of the grouping engine\<close>


subsection \<open>What the \<open>$group\<close> stage maintains\<close>

lemma acc_new_ok: "acc_ok (acc_new k d)"
  by (simp add: acc_ok_def acc_new_def)

lemma acc_add_ok: "acc_ok a \<Longrightarrow> acc_ok (acc_add a d)"
  by (simp add: acc_ok_def acc_add_def)

lemma group_step_ok: "list_all acc_ok as \<Longrightarrow> list_all acc_ok (group_step k d as)"
  by (induction as) (simp_all add: acc_new_ok acc_add_ok)

lemma foldl_group_step_ok:
  "list_all acc_ok as \<Longrightarrow> list_all acc_ok (foldl (\<lambda>as d. group_step (kf d) d as) as ds)"
  by (induction ds arbitrary: as) (simp_all add: group_step_ok)

lemma group_stage_ok: "list_all acc_ok (group_stage c ds)"
  unfolding group_stage_def by (rule foldl_group_step_ok) simp

subsection \<open>The stable insertion sort\<close>

lemma set_insert_by: "set (insert_by le x xs) = insert x (set xs)"
  by (induction xs) auto

lemma set_sort_by: "set (sort_by le xs) = set xs"
  unfolding sort_by_def by (induction xs) (simp_all add: set_insert_by)

lemma length_insert_by: "length (insert_by le x xs) = Suc (length xs)"
  by (induction xs) auto

lemma length_sort_by: "length (sort_by le xs) = length xs"
  unfolding sort_by_def by (induction xs) (simp_all add: length_insert_by)

lemma mset_insert_by: "mset (insert_by le x xs) = add_mset x (mset xs)"
  by (induction xs) auto

lemma mset_sort_by: "mset (sort_by le xs) = mset xs"
  unfolding sort_by_def by (induction xs) (simp_all add: mset_insert_by)

lemma sorted_wrt_insert_by:
  assumes total: "\<And>a b. P a \<Longrightarrow> P b \<Longrightarrow> le a b \<or> le b a"
    and trans: "\<And>a b c. P a \<Longrightarrow> P b \<Longrightarrow> P c \<Longrightarrow> le a b \<Longrightarrow> le b c \<Longrightarrow> le a c"
    and "P x" and "\<forall>y\<in>set xs. P y" and "sorted_wrt le xs"
  shows "sorted_wrt le (insert_by le x xs)"
  using assms(3-)
proof (induction xs)
  case Nil
  then show ?case by simp
next
  case (Cons y ys)
  show ?case
  proof (cases "le x y")
    case True
    have "le x z" if "z \<in> set ys" for z
    proof -
      from Cons.prems that have "le y z" "P z" "P y" by auto
      with True trans[of x y z] Cons.prems(1) show ?thesis by blast
    qed
    with True Cons.prems show ?thesis by auto
  next
    case False
    with total[of x y] Cons.prems have "le y x" by auto
    with False Cons show ?thesis by (auto simp: set_insert_by)
  qed
qed

lemma sorted_wrt_sort_by:
  assumes total: "\<And>a b. P a \<Longrightarrow> P b \<Longrightarrow> le a b \<or> le b a"
    and trans: "\<And>a b c. P a \<Longrightarrow> P b \<Longrightarrow> P c \<Longrightarrow> le a b \<Longrightarrow> le b c \<Longrightarrow> le a c"
    and "\<forall>y\<in>set xs. P y"
  shows "sorted_wrt le (sort_by le xs)"
  using assms(3)
proof (induction xs)
  case Nil
  then show ?case by (simp add: sort_by_def)
next
  case (Cons x xs)
  then have "sorted_wrt le (sort_by le xs)" by simp
  moreover have "\<forall>y\<in>set (sort_by le xs). P y"
    using Cons.prems by (simp add: set_sort_by)
  moreover have "P x" using Cons.prems by simp
  ultimately have "sorted_wrt le (insert_by le x (sort_by le xs))"
    using total trans by (intro sorted_wrt_insert_by[where P = P]) blast+
  then show ?case by (simp add: sort_by_def)
qed

subsection \<open>Every returned group comes from an accumulator\<close>

lemma aggregate_member:
  assumes "r \<in> set (aggregate c f ds)"
  obtains a where "acc_ok a" and "r = project_stage a"
proof -
  from assms obtain a where a: "a \<in> set (group_stage c (filter (matchQuery f) ds))"
    and r: "r = project_stage a"
    by (auto simp: aggregate_def set_sort_by)
  from a group_stage_ok[of c "filter (matchQuery f) ds"] have "acc_ok a"
    by (simp add: list_all_iff)
  with r that show thesis by blast
qed

lemma engine_member:
  assumes "fetchProfitableTokenGroupsWithMigration c f db = Inr gs" and "g \<in> set gs"
  obtains a where "acc_ok a" and "g = to_stats (winPercent_of f) (project_stage a)"
proof -
  from assms obtain ds r where "db = Inr ds" and "r \<in> set (aggregate c f ds)"
    and g: "g = to_stats (winPercent_of f) r"
    by (auto simp: fetchProfitableTokenGroupsWithMigration_def split: sum.splits)
  then show thesis using that by (auto elim!: aggregate_member)
qed

text \<open>The result on a collection that can be read, and the fields of a returned group.\<close>

lemma engine_Inr:
  "fetchProfitableTokenGroupsWithMigration c f (Inr ds) =
     Inr (map (to_stats (winPercent_of f)) (aggregate c f ds))"
  by (simp add: fetchProfitableTokenGroupsWithMigration_def)

lemma engine_projr:
  "projr (fetchProfitableTokenGroupsWithMigration c f (Inr ds)) =
     map (to_stats (winPercent_of f)) (aggregate c f ds)"
  by (simp add: engine_Inr)

lemma engine_Inr_projr:
  "fetchProfitableTokenGroupsWithMigration c f (Inr ds) =
     Inr (projr (fetchProfitableTokenGroupsWithMigration c f (Inr ds)))"
  by (simp add: engine_Inr)

lemma to_stats_fields:
  "TokenGroupStats.totalTokens (to_stats p r) = agg_result.totalTokens r"
  "TokenGroupStats.migratedTokens (to_stats p r) = agg_result.migratedTokens r"
  "TokenGroupStats.migrationRate (to_stats p r) = round2 (agg_result.migrationRate r)"
  "TokenGroupStats.profitableTokens (to_stats p r) = agg_result.profitableTokens r"
  "TokenGroupStats.tokens (to_stats p r) = agg_result.tokens r"
  "commonRiseSol (to_stats p r) =
     round_to 10000 (percentile_pick (riseSols (agg_result.tokens r)) p)"
  by (simp_all add: to_stats_def)

lemma single_group:
  assumes "aggregate c f ds = [r]"
  shows "projr (fetchProfitableTokenGroupsWithMigration c f (Inr ds)) =
           [to_stats (winPercent_of f) r]"
    and "hd (projr (fetchProfitableTokenGroupsWithMigration c f (Inr ds))) =
           to_stats (winPercent_of f) r"
    and "hd (projr (fetchProfitableTokenGroupsWithMigration c f (Inr ds))) \<in>
           set (projr (fetchProfitableTokenGroupsWithMigration c f (Inr ds)))"
  by (simp_all add: engine_projr assms)

subsection \<open>\<open>Math.round(x * 100) / 100\<close>\<close>

lemma round2_mono:
  assumes "x \<le> y"
  shows "round2 x \<le> round2 y"
proof -
  have "fl (x * 100) \<le> fl (y * 100)" using assms by (intro fl_mono) simp
  then have "\<lfloor>fl (x * 100) + 1 / 2\<rfloor> \<le> \<lfloor>fl (y * 100) + 1 / 2\<rfloor>"
    by (intro floor_mono) simp
  then have "(of_int \<lfloor>fl (x * 100) + 1 / 2\<rfloor> :: rat) \<le> of_int \<lfloor>fl (y * 100) + 1 / 2\<rfloor>"
    by (simp only: of_int_le_iff)
  then have "(of_int \<lfloor>fl (x * 100) + 1 / 2\<rfloor> :: rat) / 100 \<le> of_int \<lfloor>fl (y * 100) + 1 / 2\<rfloor> / 100"
    by (intro divide_right_mono) simp_all
  then show ?thesis unfolding round2_def by (rule fl_mono)
qed

lemma round2_0: "round2 0 = 0"
  by code_simp

lemma round2_100: "round2 100 = 100"
  by code_simp

lemma quotient_range:
  fixes m t :: nat
  assumes "0 < t" and "m \<le> t"
  shows "(0 :: rat) \<le> of_nat m / of_nat t" and "(of_nat m :: rat) / of_nat t \<le> 1"
  using assms by (simp_all add: divide_le_eq_1)

lemma rate_range:
  fixes m t :: nat
  assumes "0 < t" and "m \<le> t"
  shows "0 \<le> fl (of_nat m / of_nat t)" and "fl (of_nat m / of_nat t) \<le> 1"
    and "0 \<le> fl (fl (of_nat m / of_nat t) * 100)"
    and "fl (fl (of_nat m / of_nat t) * 100) \<le> 100"
proof -
  note q = quotient_range[OF assms]
  show a0: "0 \<le> fl (of_nat m / of_nat t)" using fl_mono[OF q(1)] by simp
  show a1: "fl (of_nat m / of_nat t) \<le> 1" using fl_mono[OF q(2)] by simp
  have "0 \<le> fl (of_nat m / of_nat t) * 100" using a0 by simp
  from fl_mono[OF this] show "0 \<le> fl (fl (of_nat m / of_nat t) * 100)" by simp
  have "fl (of_nat m / of_nat t) * 100 \<le> 100" using a1 by simp
  from fl_mono[OF this] show "fl (fl (of_nat m / of_nat t) * 100) \<le> 100" by simp
qed

text \<open>
  The error of the three rounded operations before \<open>Math.round\<close>: the quotient, its
  product with 100, and the product of that with 100.
\<close>

lemma rounding_chain:
  fixes x a b c e :: rat
  assumes "\<bar>a - x\<bar> \<le> e" and "\<bar>b - a * 100\<bar> \<le> 100 * e"
    and "\<bar>c - b * 100\<bar> \<le> 10000 * e"
  shows "\<bar>c - x * 100 * 100\<bar> \<le> 30000 * e"
  using assms unfolding abs_le_iff by (auto simp: algebra_simps)

lemma rate_error:
  fixes m t :: nat
  assumes "0 < t" and "m \<le> t"
  shows "\<bar>fl (fl (fl (of_nat m / of_nat t) * 100) * 100) - of_nat m / of_nat t * 100 * 100\<bar>
           \<le> 30000 / 2 ^ 53"
proof -
  let ?x = "(of_nat m / of_nat t :: rat)"
  let ?a = "fl ?x"
  let ?b = "fl (?a * 100)"
  let ?c = "fl (?b * 100)"
  note q = quotient_range[OF assms]
  note r = rate_range[OF assms]
  define e :: rat where "e = 1 / 2 ^ 53"
  have "\<bar>?x\<bar> \<le> 1" using q by simp
  from fl_err_le[OF this] have ea: "\<bar>?a - ?x\<bar> \<le> e" by (simp add: e_def)
  have "\<bar>?a * 100\<bar> \<le> 100" using r(1,2) by simp
  from fl_err_le[OF this] have eb: "\<bar>?b - ?a * 100\<bar> \<le> 100 * e" by (simp add: e_def)
  have "\<bar>?b * 100\<bar> \<le> 10000" using r(3,4) by simp
  from fl_err_le[OF this] have ec: "\<bar>?c - ?b * 100\<bar> \<le> 10000 * e" by (simp add: e_def)
  from ea eb ec have "\<bar>?c - ?x * 100 * 100\<bar> \<le> 30000 * e" by (rule rounding_chain)
  then show ?thesis by (simp add: e_def)
qed

text \<open>
  For a group of fewer than \<open>2 ^ 37\<close> members the returned rate is the percentage
  rounded to two decimal places, except that a tie may be rounded down.
\<close>

lemma round2_cases:
  fixes m t :: nat
  assumes t0: "0 < t" and mt: "m \<le> t" and t37: "t < 2 ^ 37"
  shows "round2 (fl (fl (of_nat m / of_nat t) * 100)) = fl (round_2dp (of_nat m / of_nat t * 100)) \<or>
         (tie_2dp (of_nat m / of_nat t * 100) \<and>
          round2 (fl (fl (of_nat m / of_nat t) * 100)) =
            fl (round_2dp (of_nat m / of_nat t * 100) - 1 / 100))"
proof -
  define x where "x = (of_nat m / of_nat t * 100 :: rat)"
  define c where "c = fl (fl (fl (of_nat m / of_nat t) * 100) * 100)"
  define j where "j = \<lfloor>x * 100 + 1 / 2\<rfloor>"
  have err: "\<bar>c - x * 100\<bar> \<le> 30000 / 2 ^ 53"
    using rate_error[OF t0 mt] by (simp only: c_def x_def)
  have r2: "round2 (fl (fl (of_nat m / of_nat t) * 100)) = fl (of_int \<lfloor>c + 1 / 2\<rfloor> / 100)"
    by (simp only: round2_def c_def)
  have rd: "round_2dp x = of_int j / 100"
    by (simp only: round_2dp_def j_def)
  have j1: "of_int j \<le> x * 100 + 1 / 2" and j2: "x * 100 + 1 / 2 < of_int j + 1"
    unfolding j_def by linarith+
  have small: "(30000 :: rat) / 2 ^ 53 < 1 / 2 ^ 38" by simp
  have small1: "(1 :: rat) / 2 ^ 38 < 1" by simp
  show ?thesis
  proof (cases "tie_2dp x")
    case True
    then have eq: "of_int j = x * 100 + 1 / 2" by (simp only: tie_2dp_def j_def)
    from err eq small small1 have "of_int (j - 1) \<le> c + 1 / 2" "c + 1 / 2 < of_int (j + 1)"
      by (simp_all only: of_int_diff of_int_add of_int_1)
    then have "j - 1 \<le> \<lfloor>c + 1 / 2\<rfloor>" "\<lfloor>c + 1 / 2\<rfloor> < j + 1"
      by (simp_all only: le_floor_iff floor_less_iff)
    then have "\<lfloor>c + 1 / 2\<rfloor> = j \<or> \<lfloor>c + 1 / 2\<rfloor> = j - 1" by linarith
    then show ?thesis
    proof
      assume "\<lfloor>c + 1 / 2\<rfloor> = j"
      then have "round2 (fl (fl (of_nat m / of_nat t) * 100)) = fl (round_2dp x)"
        by (simp only: r2 rd)
      then show ?thesis by (simp only: x_def) simp
    next
      assume "\<lfloor>c + 1 / 2\<rfloor> = j - 1"
      moreover have "(of_int (j - 1) :: rat) / 100 = round_2dp x - 1 / 100"
        by (simp add: rd diff_divide_distrib)
      ultimately have "round2 (fl (fl (of_nat m / of_nat t) * 100)) = fl (round_2dp x - 1 / 100)"
        by (simp only: r2)
      with True show ?thesis by (simp only: x_def) simp
    qed
  next
    case False
    then have ne: "of_int j \<noteq> x * 100 + 1 / 2" by (simp add: tie_2dp_def j_def)
    have tq: "(0 :: rat) < 2 * of_nat t" using t0 by simp
    define N where "N = 20000 * int m + int t - 2 * j * int t"
    have N: "(of_int N :: rat) = (x * 100 + 1 / 2 - of_int j) * (2 * of_nat t)"
      using t0 by (simp add: N_def x_def field_simps)
    have N': "(of_int (2 * int t - N) :: rat) = (of_int j + 1 - (x * 100 + 1 / 2)) * (2 * of_nat t)"
      using t0 by (simp add: N_def x_def field_simps)
    from j1 ne have "0 < x * 100 + 1 / 2 - of_int j" by simp
    from this tq have "(0 :: rat) < of_int N" unfolding N by (rule mult_pos_pos)
    then have "1 \<le> N" by simp
    then have "(1 :: rat) \<le> of_int N" by simp
    then have "1 \<le> (x * 100 + 1 / 2 - of_int j) * (2 * of_nat t)" by (simp only: N)
    then have d1: "1 / (2 * of_nat t) \<le> x * 100 + 1 / 2 - of_int j"
      by (simp only: pos_divide_le_eq[OF tq])
    from j2 have "0 < of_int j + 1 - (x * 100 + 1 / 2)" by simp
    from this tq have "(0 :: rat) < of_int (2 * int t - N)" unfolding N' by (rule mult_pos_pos)
    then have "1 \<le> 2 * int t - N" by simp
    then have "(1 :: rat) \<le> of_int (2 * int t - N)" by (simp only: of_int_1_le_iff)
    then have "1 \<le> (of_int j + 1 - (x * 100 + 1 / 2)) * (2 * of_nat t)" by (simp only: N')
    then have d2: "1 / (2 * of_nat t) \<le> of_int j + 1 - (x * 100 + 1 / 2)"
      by (simp only: pos_divide_le_eq[OF tq])
    have "2 * t < 2 ^ 38" using t37 by simp
    then have "(of_nat (2 * t) :: rat) < of_nat (2 ^ 38)" by (simp only: of_nat_less_iff)
    then have "(2 * of_nat t :: rat) < 2 ^ 38" by simp
    then have big: "(1 :: rat) / 2 ^ 38 < 1 / (2 * of_nat t)"
      using tq by (intro divide_strict_left_mono) simp_all
    from err small big d1 d2 have "of_int j \<le> c + 1 / 2" "c + 1 / 2 < of_int j + 1"
      by linarith+
    then have "\<lfloor>c + 1 / 2\<rfloor> = j" by (simp add: floor_eq_iff)
    then have "round2 (fl (fl (of_nat m / of_nat t) * 100)) = fl (round_2dp x)"
      by (simp only: r2 rd)
    then show ?thesis by (simp only: x_def) simp
  qed
qed

subsection \<open>Migration rate\<close>

text \<open>
  C3, as claimed, fails on a tie. 23 migrated members of 160 are 14.375 percent, which
  rounds to 14.38; the database computes 14.374999999999998 from the two counts and the
  engine returns 14.37.
\<close>

theorem rate_tie_counterexample:
  "\<not> isl (fetchProfitableTokenGroupsWithMigration by_pattern no_filters (Inr scenario_160)) \<and>
   map (\<lambda>g. (TokenGroupStats.totalTokens g, TokenGroupStats.migratedTokens g,
              TokenGroupStats.migrationRate g))
     (projr (fetchProfitableTokenGroupsWithMigration by_pattern no_filters (Inr scenario_160))) =
     [(160, 23, fl (1437 / 100))] \<and>
   round_2dp (23 / 160 * 100) = 1438 / 100 \<and>
   fl (1437 / 100) \<noteq> fl (1438 / 100) \<and>
   fl (1437 / 100) < 1438 / 100 - 1 / 200"
proof -
  let ?R = "fetchProfitableTokenGroupsWithMigration by_pattern no_filters (Inr scenario_160)"
  have a: "\<not> isl ?R"
    by (simp add: fetchProfitableTokenGroupsWithMigration_def)
  have "map (\<lambda>r. (agg_result.totalTokens r, agg_result.migratedTokens r,
              round2 (agg_result.migrationRate r)))
          (aggregate by_pattern no_filters scenario_160) = [(160, 23, fl (1437 / 100))]"
    by code_simp
  then have b: "map (\<lambda>g. (TokenGroupStats.totalTokens g, TokenGroupStats.migratedTokens g,
              TokenGroupStats.migrationRate g)) (projr ?R) = [(160, 23, fl (1437 / 100))]"
    by (simp add: engine_projr comp_def to_stats_fields)
  have c: "round_2dp (23 / 160 * 100) = 1438 / 100"
    by code_simp
  have d: "fl (1437 / 100) \<noteq> fl (1438 / 100)"
    by code_simp
  have e: "fl (1437 / 100) < 1438 / 100 - 1 / 200"
    by code_simp
  show ?thesis
    by (intro conjI a b c d e)
qed

text \<open>
  C3, amended: for every group that the grouping engine returns, \<open>migrationRate\<close> is
  \<open>Math.round(r * 100) / 100\<close> for the double \<open>r\<close> that the database computes as
  \<open>migratedTokens / totalTokens \<times> 100\<close>. For a group of fewer than \<open>2 ^ 37\<close> members this
  is the double nearest to the exact percentage rounded to two decimal places, except
  that a percentage which is a tie (its third decimal is a final 5) may be rounded down
  instead of up. The rate lies between 0 and 100, \<open>migratedTokens\<close> is the number of
  members whose \<open>migrated\<close> flag is true and \<open>totalTokens\<close> the number of members; a group
  of 6 members with 4 migrated has the rate 66.67.
\<close>

theorem migrationRate_rounded:
  assumes "fetchProfitableTokenGroupsWithMigration c f db = Inr gs" and "g \<in> set gs"
  shows "TokenGroupStats.migrationRate g =
           round2 (fl (fl (of_nat (TokenGroupStats.migratedTokens g) /
                           of_nat (TokenGroupStats.totalTokens g)) * 100)) \<and>
         (TokenGroupStats.totalTokens g < 2 ^ 37 \<longrightarrow>
            TokenGroupStats.migrationRate g = fl (round_2dp (exact_rate g)) \<or>
            (tie_2dp (exact_rate g) \<and>
             TokenGroupStats.migrationRate g = fl (round_2dp (exact_rate g) - 1 / 100))) \<and>
         0 \<le> TokenGroupStats.migrationRate g \<and> TokenGroupStats.migrationRate g \<le> 100 \<and>
         TokenGroupStats.migratedTokens g = length (filter migrated (TokenGroupStats.tokens g)) \<and>
         TokenGroupStats.totalTokens g = length (TokenGroupStats.tokens g) \<and>
         (TokenGroupStats.totalTokens g = 6 \<and> TokenGroupStats.migratedTokens g = 4 \<longrightarrow>
            TokenGroupStats.migrationRate g = fl (6667 / 100))"
proof -
  from assms obtain a where ok: "acc_ok a"
    and g: "g = to_stats (winPercent_of f) (project_stage a)"
    by (rule engine_member)
  let ?m = "acc_migratedTokens a" and ?t = "acc_totalTokens a"
  let ?r = "fl (fl (of_nat ?m / of_nat ?t) * 100)"
  from ok have le: "?m \<le> ?t" and pos: "0 < ?t"
    by (auto simp: acc_ok_def)
  note r = rate_range[OF pos le]
  have f1: "TokenGroupStats.migratedTokens g = ?m" "TokenGroupStats.totalTokens g = ?t"
    by (simp_all add: g to_stats_def project_stage_def)
  have rate: "TokenGroupStats.migrationRate g = round2 ?r"
    by (simp add: g to_stats_def project_stage_def)
  have ex: "exact_rate g = of_nat ?m / of_nat ?t * 100"
    by (simp add: exact_rate_def f1)
  have c1: "TokenGroupStats.migrationRate g =
           round2 (fl (fl (of_nat (TokenGroupStats.migratedTokens g) /
                           of_nat (TokenGroupStats.totalTokens g)) * 100))"
    by (simp only: rate f1)
  have c2: "TokenGroupStats.totalTokens g < 2 ^ 37 \<longrightarrow>
            TokenGroupStats.migrationRate g = fl (round_2dp (exact_rate g)) \<or>
            (tie_2dp (exact_rate g) \<and>
             TokenGroupStats.migrationRate g = fl (round_2dp (exact_rate g) - 1 / 100))"
  proof
    assume "TokenGroupStats.totalTokens g < 2 ^ 37"
    then have "?t < 2 ^ 37" by (simp only: f1)
    from round2_cases[OF pos le this]
    show "TokenGroupStats.migrationRate g = fl (round_2dp (exact_rate g)) \<or>
            (tie_2dp (exact_rate g) \<and>
             TokenGroupStats.migrationRate g = fl (round_2dp (exact_rate g) - 1 / 100))"
      by (simp only: rate ex)
  qed
  have c3: "0 \<le> TokenGroupStats.migrationRate g"
    using round2_mono[OF r(3)] by (simp add: rate round2_0)
  have c4: "TokenGroupStats.migrationRate g \<le> 100"
    using round2_mono[OF r(4)] by (simp add: rate round2_100)
  have c5: "TokenGroupStats.migratedTokens g = length (filter migrated (TokenGroupStats.tokens g))"
    and c6: "TokenGroupStats.totalTokens g = length (TokenGroupStats.tokens g)"
    using ok by (simp_all add: g to_stats_def project_stage_def acc_ok_def)
  have "round2 (fl (fl (of_nat 4 / of_nat 6) * 100)) = fl (6667 / 100)"
    by code_simp
  then have c7: "TokenGroupStats.totalTokens g = 6 \<and> TokenGroupStats.migratedTokens g = 4 \<longrightarrow>
            TokenGroupStats.migrationRate g = fl (6667 / 100)"
    by (auto simp: rate f1[symmetric])
  show ?thesis
    by (intro conjI c1 c2 c3 c4 c5 c6 c7)
qed

theorem migrationRate_rounded_witness:
  "(let gs = projr (fetchProfitableTokenGroupsWithMigration by_pattern no_filters (Inr scenario_A));
        g = hd gs
    in fetchProfitableTokenGroupsWithMigration by_pattern no_filters (Inr scenario_A) = Inr gs \<and>
       g \<in> set gs \<and>
       TokenGroupStats.totalTokens g = 6 \<and> TokenGroupStats.migratedTokens g = 4 \<and>
       TokenGroupStats.totalTokens g < 2 ^ 37 \<and> \<not> tie_2dp (exact_rate g) \<and>
       round_2dp (exact_rate g) = 6667 / 100 \<and>
       TokenGroupStats.migrationRate g = fl (round_2dp (exact_rate g)) \<and>
       TokenGroupStats.migrationRate g = fl (6667 / 100))"
proof -
  let ?gs = "projr (fetchProfitableTokenGroupsWithMigration by_pattern no_filters (Inr scenario_A))"
  have h1: "fetchProfitableTokenGroupsWithMigration by_pattern no_filters (Inr scenario_A) = Inr ?gs"
    by (rule engine_Inr_projr)
  have "map (\<lambda>r. (agg_result.totalTokens r, agg_result.migratedTokens r))
          (aggregate by_pattern no_filters scenario_A) = [(6, 4)]"
    by code_simp
  then obtain r where r: "aggregate by_pattern no_filters scenario_A = [r]"
    and f: "agg_result.totalTokens r = 6" "agg_result.migratedTokens r = 4"
    by (auto simp: map_eq_Cons_conv)
  note s = single_group[OF r]
  have h2: "hd ?gs \<in> set ?gs"
    by (rule s(3))
  have h3: "TokenGroupStats.totalTokens (hd ?gs) = 6" and h4: "TokenGroupStats.migratedTokens (hd ?gs) = 4"
    by (simp_all add: s(2) to_stats_fields f)
  have h5: "TokenGroupStats.totalTokens (hd ?gs) < 2 ^ 37"
    by (simp add: h3)
  have ex: "exact_rate (hd ?gs) = 4 / 6 * 100"
    by (simp add: exact_rate_def h3 h4)
  have h6: "\<not> tie_2dp (exact_rate (hd ?gs))"
    unfolding ex by code_simp
  have h7: "round_2dp (exact_rate (hd ?gs)) = 6667 / 100"
    unfolding ex by code_simp
  note t = migrationRate_rounded[OF h1 h2]
  from t[THEN conjunct2, THEN conjunct1, THEN mp, OF h5] h6
  have h8: "TokenGroupStats.migrationRate (hd ?gs) = fl (round_2dp (exact_rate (hd ?gs)))"
    by blast
  have h9: "TokenGroupStats.migrationRate (hd ?gs) = fl (6667 / 100)"
    unfolding h8 h7 ..
  show ?thesis
    unfolding Let_def by (intro conjI h1 h2 h3 h4 h5 h6 h7 h8 h9)
qed

subsection \<open>The \<open>profitableTokens\<close> field\<close>

text \<open>
  C9: for every group that the grouping engine returns, whatever the criteria and the
  filters (a minimum \<open>maxSol\<close> included), \<open>profitableTokens\<close> equals \<open>totalTokens\<close>: the
  field repeats the member count and selects nothing.
\<close>

theorem profitableTokens_alias:
  assumes "fetchProfitableTokenGroupsWithMigration c f db = Inr gs" and "g \<in> set gs"
  shows "TokenGroupStats.profitableTokens g = TokenGroupStats.totalTokens g"
  using assms by (auto elim!: engine_member simp: to_stats_def project_stage_def)

theorem profitableTokens_alias_witness:
  "(let gs = projr (fetchProfitableTokenGroupsWithMigration by_pattern min_profit_3 (Inr scenario_A));
        g = hd gs
    in fetchProfitableTokenGroupsWithMigration by_pattern min_profit_3 (Inr scenario_A) = Inr gs \<and>
       g \<in> set gs \<and>
       TokenGroupStats.profitableTokens g = 3 \<and> TokenGroupStats.totalTokens g = 3)"
proof -
  let ?gs = "projr (fetchProfitableTokenGroupsWithMigration by_pattern min_profit_3 (Inr scenario_A))"
  have h1: "fetchProfitableTokenGroupsWithMigration by_pattern min_profit_3 (Inr scenario_A) = Inr ?gs"
    by (rule engine_Inr_projr)
  have "map agg_result.totalTokens (aggregate by_pattern min_profit_3 scenario_A) = [3]"
    by code_simp
  then obtain r where r: "aggregate by_pattern min_profit_3 scenario_A = [r]"
    and f: "agg_result.totalTokens r = 3"
    by (auto simp: map_eq_Cons_conv)
  note s = single_group[OF r]
  have h2: "hd ?gs \<in> set ?gs"
    by (rule s(3))
  have h3: "TokenGroupStats.totalTokens (hd ?gs) = 3"
    by (simp add: s(2) to_stats_fields f)
  from profitableTokens_alias[OF h1 h2] h1 h2 h3 show ?thesis
    by (simp add: Let_def)
qed


subsection \<open>The percentile estimator\<close>

lemma cmp_sub_le_iff: "\<not> isNaN a \<Longrightarrow> \<not> isNaN b \<Longrightarrow> cmp_sub_le a b \<longleftrightarrow> \<not> js_lt b a"
  by (cases a; cases b) (auto simp: cmp_sub_le_def js_sub_def fl_pos_iff)

lemma cmp_sub_le_total: "\<not> isNaN a \<Longrightarrow> \<not> isNaN b \<Longrightarrow> cmp_sub_le a b \<or> cmp_sub_le b a"
  by (cases a; cases b) (auto simp: cmp_sub_le_def js_sub_def fl_pos_iff)

lemma cmp_sub_le_trans:
  "\<not> isNaN a \<Longrightarrow> \<not> isNaN b \<Longrightarrow> \<not> isNaN c \<Longrightarrow> cmp_sub_le a b \<Longrightarrow> cmp_sub_le b c \<Longrightarrow> cmp_sub_le a c"
  by (cases a; cases b; cases c) (auto simp: cmp_sub_le_def js_sub_def fl_pos_iff)

lemma sorted_rises_sorted: "sorted_wrt (\<lambda>a b. \<not> js_lt b a) (sorted_rises rs)"
proof -
  let ?xs = "filter (\<lambda>r. \<not> isNaN r) rs"
  let ?ys = "sort_by cmp_sub_le ?xs"
  have p: "\<forall>y\<in>set ?xs. \<not> isNaN y" by simp
  have s: "sorted_wrt cmp_sub_le ?ys"
    using cmp_sub_le_total cmp_sub_le_trans p
    by (rule sorted_wrt_sort_by[where P = "\<lambda>r. \<not> isNaN r" and le = cmp_sub_le])
  have n: "\<not> isNaN r" if "r \<in> set ?ys" for r
    using that by (simp add: set_sort_by)
  have "sorted_wrt (\<lambda>a b. \<not> js_lt b a) ?ys"
  proof (rule sorted_wrt_mono_rel[of ?ys cmp_sub_le "\<lambda>a b. \<not> js_lt b a"])
    show "sorted_wrt cmp_sub_le ?ys" by (rule s)
    show "\<not> js_lt b a" if "a \<in> set ?ys" "b \<in> set ?ys" "cmp_sub_le a b" for a b
      using that n[of a] n[of b] cmp_sub_le_iff[of a b] by blast
  qed
  then show ?thesis by (simp only: sorted_rises_def)
qed

lemma mset_sorted_rises: "mset (sorted_rises rs) = mset (filter (\<lambda>r. \<not> isNaN r) rs)"
  by (simp add: sorted_rises_def mset_sort_by)

lemma length_sorted_rises: "length (sorted_rises rs) = length (filter (\<lambda>r. \<not> isNaN r) rs)"
  by (simp add: sorted_rises_def length_sort_by)

lemma percentileIndex_fin:
  "percentileIndex rs (Fin p) =
     Fin (of_int \<lfloor>fl (of_nat (length rs) * fl (1 - fl (p / 100)))\<rfloor>)"
  by (simp add: percentileIndex_def js_sub_def)

text \<open>
  The three rounded operations of the index. For \<open>100 / 2 ^ 53 \<le> p \<le> 100\<close> the factor
  \<open>1 - p / 100\<close> is computed as a number between 0 and \<open>1 - 1 / 2 ^ 53\<close>, and the product
  with \<open>n\<close> stays below \<open>n\<close>.
\<close>

lemma factor_range:
  fixes p :: rat
  assumes "100 / 2 ^ 53 \<le> p" and "p \<le> 100"
  shows "0 \<le> fl (1 - fl (p / 100))" and "fl (1 - fl (p / 100)) \<le> 1 - 1 / 2 ^ 53"
    and "\<bar>fl (1 - fl (p / 100)) - (1 - p / 100)\<bar> \<le> 2 / 2 ^ 53"
proof -
  let ?q = "fl (p / 100)"
  have e1: "fl (1 / 2 ^ 53) = 1 / 2 ^ 53"
    using fl_exact[of 1 "- 53"] by (simp add: pow2_def)
  have e2: "fl (1 - 1 / 2 ^ 53) = 1 - 1 / 2 ^ 53"
    using fl_exact[of "2 ^ 53 - 1" "- 53"] by (simp add: pow2_def)
  have "1 / 2 ^ 53 \<le> p / 100" using assms(1) by simp
  from fl_mono[OF this] have q0: "1 / 2 ^ 53 \<le> ?q" by (simp only: e1)
  have "p / 100 \<le> 1" using assms(2) by simp
  from fl_mono[OF this] have q1: "?q \<le> 1" by simp
  have "0 \<le> 1 - ?q" using q1 by simp
  from fl_mono[OF this] show d0: "0 \<le> fl (1 - ?q)" by simp
  have "1 - ?q \<le> 1 - 1 / 2 ^ 53" using q0 by simp
  from fl_mono[OF this] show "fl (1 - ?q) \<le> 1 - 1 / 2 ^ 53" by (simp only: e2)
  have "0 \<le> p" using assms(1) by (rule order_trans[rotated]) simp
  then have "\<bar>p / 100\<bar> \<le> 1" using assms(2) by simp
  from fl_err_le[OF this] have a: "\<bar>?q - p / 100\<bar> \<le> 1 / 2 ^ 53" by simp
  have "0 \<le> ?q" using q0 by (rule order_trans[rotated]) simp
  then have "\<bar>1 - ?q\<bar> \<le> 1" using q1 by simp
  from fl_err_le[OF this] have b: "\<bar>fl (1 - ?q) - (1 - ?q)\<bar> \<le> 1 / 2 ^ 53" by simp
  from a b show "\<bar>fl (1 - ?q) - (1 - p / 100)\<bar> \<le> 2 / 2 ^ 53" by linarith
qed

lemma two_errors:
  fixes z w v e1 e2 :: rat
  assumes "\<bar>z - w\<bar> \<le> e1" and "\<bar>w - v\<bar> \<le> e2" and "e1 + e2 < 1"
  shows "\<bar>z - v\<bar> < 1"
  using assms unfolding abs_le_iff abs_less_iff by (auto simp: algebra_simps)

lemma rank_bounds:
  fixes p :: rat
  assumes p0: "100 / 2 ^ 53 \<le> p" and p1: "p \<le> 100" and n0: "0 < n" and n32: "n < 2 ^ 32"
  shows "0 \<le> \<lfloor>fl (of_nat n * fl (1 - fl (p / 100)))\<rfloor>"
    and "\<lfloor>fl (of_nat n * fl (1 - fl (p / 100)))\<rfloor> < int n"
    and "\<bar>\<lfloor>fl (of_nat n * fl (1 - fl (p / 100)))\<rfloor> - claimed_rank n p\<bar> \<le> 1"
proof -
  let ?d = "fl (1 - fl (p / 100))"
  let ?z = "fl (of_nat n * ?d)"
  note d = factor_range[OF p0 p1]
  have npos: "(0 :: rat) < of_nat n" using n0 by simp
  have "(of_nat n :: rat) < of_nat (2 ^ 32)" using n32 by (simp only: of_nat_less_iff)
  then have nle: "(of_nat n :: rat) < 2 ^ 32" by simp
  have "0 \<le> of_nat n * ?d" using d(1) by simp
  from fl_mono[OF this] have z0: "0 \<le> ?z" by simp
  then show "0 \<le> \<lfloor>?z\<rfloor>" by simp
  have le: "of_nat n * ?d \<le> of_nat n * (1 - 1 / 2 ^ 53)"
    using d(2) npos by (intro mult_left_mono) simp_all
  have "n < 2 ^ 53" using n32 by simp
  from fl_below_nat[OF le n0 this] have "?z < of_int (int n)" by simp
  then show "\<lfloor>?z\<rfloor> < int n" by (simp only: floor_less_iff)
  have "of_nat n * ?d \<le> of_nat n * 1"
    using d(2) npos by (intro mult_left_mono) simp_all
  with \<open>0 \<le> of_nat n * ?d\<close> have "\<bar>of_nat n * ?d\<bar> \<le> of_nat n" by simp
  from fl_err_le[OF this] have e3: "\<bar>?z - of_nat n * ?d\<bar> \<le> of_nat n / 2 ^ 53" .
  have "\<bar>of_nat n * (?d - (1 - p / 100))\<bar> = of_nat n * \<bar>?d - (1 - p / 100)\<bar>"
    by (simp add: abs_mult)
  also have "\<dots> \<le> of_nat n * (2 / 2 ^ 53)"
    using d(3) npos by (intro mult_left_mono) simp_all
  finally have e12: "\<bar>of_nat n * ?d - of_nat n * (1 - p / 100)\<bar> \<le> of_nat n * (2 / 2 ^ 53)"
    by (simp only: right_diff_distrib)
  have "of_nat n / 2 ^ 53 + of_nat n * (2 / 2 ^ 53) = (of_nat n :: rat) * (3 / 2 ^ 53)"
    by simp
  also have "\<dots> < 2 ^ 32 * (3 / 2 ^ 53)"
    using nle by (intro mult_strict_right_mono) simp_all
  also have "\<dots> < (1 :: rat)" by simp
  finally have "of_nat n / 2 ^ 53 + of_nat n * (2 / 2 ^ 53) < (1 :: rat)" .
  with e3 e12 have "\<bar>?z - of_nat n * (1 - p / 100)\<bar> < 1" by (rule two_errors)
  then show "\<bar>\<lfloor>?z\<rfloor> - claimed_rank n p\<bar> \<le> 1"
    unfolding claimed_rank_def by (rule floor_close)
qed

lemma percentile_pick_in_range:
  fixes p :: rat
  assumes "100 / 2 ^ 53 \<le> p" and "p \<le> 100" and "rs \<noteq> []" and "length rs < 2 ^ 32"
  shows "\<exists>k. percentileIndex rs (Fin p) = Fin (of_int k) \<and> 0 \<le> k \<and> k < int (length rs) \<and>
              \<bar>k - claimed_rank (length rs) p\<bar> \<le> 1 \<and>
              percentile_pick rs (Fin p) = Some (rs ! nat k)"
proof -
  let ?k = "\<lfloor>fl (of_nat (length rs) * fl (1 - fl (p / 100)))\<rfloor>"
  from assms(3) have n: "0 < length rs" by simp
  note r = rank_bounds[OF assms(1,2) n assms(4)]
  have i: "percentileIndex rs (Fin p) = Fin (of_int ?k)" by (rule percentileIndex_fin)
  have "percentile_pick rs (Fin p) = Some (rs ! nat ?k)"
    using r(1,2) n by (simp add: percentile_pick_def i)
  with i r show ?thesis by blast
qed

text \<open>
  C1, as claimed, fails where the rounding of the three operations moves the product
  across an integer. For five rises and a win percentage of 80 the rank of the claim is
  \<open>floor(5 \<times> 0.2) = 1\<close>, with the value 2; the code computes \<open>1 - 80 / 100\<close> as
  0.19999999999999996, takes rank 0 and returns 1. For a win percentage of \<open>1e-15\<close> the
  factor is computed as 1, the index is 5 and no element is found.
\<close>

theorem rank_counterexample:
  "claimed_rank 5 80 = 1 \<and>
   sorted_rises (map riseSol_of scenario_five) = [Fin 1, Fin 2, Fin 3, Fin 4, Fin 5] \<and>
   percentileIndex [Fin 1, Fin 2, Fin 3, Fin 4, Fin 5] (Fin 80) = Fin 0 \<and>
   commonRiseSol_local (map riseSol_of scenario_five) (Fin 80) = Some (Fin 1) \<and>
   [Fin 1, Fin 2, Fin 3, Fin 4, Fin 5] ! nat (claimed_rank 5 80) = Fin (2 :: rat) \<and>
   map commonRiseSol
     (projr (fetchProfitableTokenGroupsWithMigration by_pattern win_80 (Inr scenario_five))) =
     [Fin 1] \<and>
   percentileIndex [Fin 1, Fin 2, Fin 3, Fin 4, Fin 5] (dbl (1 / 10 ^ 15)) = Fin 5 \<and>
   commonRiseSol_local (map riseSol_of scenario_five) (dbl (1 / 10 ^ 15)) = None"
proof -
  have a: "claimed_rank 5 80 = 1"
    by code_simp
  have b: "sorted_rises (map riseSol_of scenario_five) = [Fin 1, Fin 2, Fin 3, Fin 4, Fin 5]"
    by code_simp
  have c: "percentileIndex [Fin 1, Fin 2, Fin 3, Fin 4, Fin 5] (Fin 80) = Fin 0"
    by code_simp
  have "percentile_pick [Fin 1, Fin 2, Fin 3, Fin 4, Fin 5] (Fin 80) = Some (Fin 1)"
    by code_simp
  then have d: "commonRiseSol_local (map riseSol_of scenario_five) (Fin 80) = Some (Fin 1)"
    by (simp only: commonRiseSol_local_def b)
  have e: "[Fin 1, Fin 2, Fin 3, Fin 4, Fin 5] ! nat (claimed_rank 5 80) = Fin (2 :: rat)"
    unfolding a by simp
  have "map (\<lambda>r. round_to 10000 (percentile_pick (riseSols (agg_result.tokens r)) (Fin 80)))
          (aggregate by_pattern win_80 scenario_five) = [Fin 1]"
    by code_simp
  moreover have "winPercent_of win_80 = Fin 80"
    by (simp add: winPercent_of_def win_80_def)
  ultimately have f: "map commonRiseSol
     (projr (fetchProfitableTokenGroupsWithMigration by_pattern win_80 (Inr scenario_five))) =
     [Fin 1]"
    by (simp add: engine_projr comp_def to_stats_fields)
  have g: "percentileIndex [Fin 1, Fin 2, Fin 3, Fin 4, Fin 5] (dbl (1 / 10 ^ 15)) = Fin 5"
    by code_simp
  have "percentile_pick [Fin 1, Fin 2, Fin 3, Fin 4, Fin 5] (dbl (1 / 10 ^ 15)) = None"
    by code_simp
  then have h: "commonRiseSol_local (map riseSol_of scenario_five) (dbl (1 / 10 ^ 15)) = None"
    by (simp only: commonRiseSol_local_def b)
  show ?thesis
    by (intro conjI a b c d e f g h)
qed

text \<open>
  C1, amended: the percentile estimator drops the NaN rises, sorts the others ascending
  (the sorted array is a permutation of them in which no element is less than an earlier
  one) and, with \<open>n\<close> rises left, takes the 0-indexed rank \<open>Math.floor(n * (1 - p / 100))\<close>
  as binary64 arithmetic evaluates it: each of the division, the subtraction and the
  product is rounded. For a win percentage \<open>p\<close> with \<open>100 / 2 ^ 53 \<le> p \<le> 100\<close> and fewer
  than \<open>2 ^ 32\<close> rises this rank lies within the array, differs from the rank
  \<open>floor(n \<times> (1 - p / 100))\<close> of exact arithmetic by at most one, and the element at this
  rank is returned. With no rise left the estimator returns 0. A filter without
  \<open>winPercent\<close> means 70, and a supplied \<open>winPercent\<close> is the one used; for the rises 0.2,
  0.4, 1.9, 2.1, 3.8, 6.5 and the default the result is 0.4. The \<open>commonRiseSol\<close> of a
  returned group is the estimate for its members' rises under the filter's win
  percentage, passed through \<open>Math.round(x * 10000) / 10000\<close>, which leaves 0.4 as it is.
\<close>

theorem percentile_estimator:
  fixes p :: rat
  shows "sorted_wrt (\<lambda>a b. \<not> js_lt b a) (sorted_rises rises) \<and>
    mset (sorted_rises rises) = mset (filter (\<lambda>r. \<not> isNaN r) rises) \<and>
    percentileIndex (sorted_rises rises) (Fin p) =
      Fin (of_int \<lfloor>fl (of_nat (length (sorted_rises rises)) * fl (1 - fl (p / 100)))\<rfloor>) \<and>
    (100 / 2 ^ 53 \<le> p \<and> p \<le> 100 \<and> sorted_rises rises \<noteq> [] \<and>
     length (sorted_rises rises) < 2 ^ 32 \<longrightarrow>
       (\<exists>k. percentileIndex (sorted_rises rises) (Fin p) = Fin (of_int k) \<and>
            0 \<le> k \<and> k < int (length (sorted_rises rises)) \<and>
            \<bar>k - claimed_rank (length (sorted_rises rises)) p\<bar> \<le> 1 \<and>
            commonRiseSol_local rises (Fin p) = Some (sorted_rises rises ! nat k))) \<and>
    (sorted_rises rises = [] \<longrightarrow> commonRiseSol_local rises w = Some (Fin 0)) \<and>
    winPercent_of (f \<lparr> winPercent := None \<rparr>) = Fin 70 \<and>
    winPercent_of (f \<lparr> winPercent := Some w \<rparr>) = w \<and>
    commonRiseSol_local rises_A (winPercent_of (f \<lparr> winPercent := None \<rparr>)) = Some (dbl (4 / 10)) \<and>
    (fetchProfitableTokenGroupsWithMigration c f db = Inr gs \<and> g \<in> set gs \<longrightarrow>
       commonRiseSol g =
         round_to 10000
           (commonRiseSol_local (map riseSol_of (TokenGroupStats.tokens g)) (winPercent_of f))) \<and>
    round_to 10000 (Some (dbl (4 / 10))) = dbl (4 / 10)"
proof -
  have c1: "sorted_wrt (\<lambda>a b. \<not> js_lt b a) (sorted_rises rises)"
    by (rule sorted_rises_sorted)
  have c2: "mset (sorted_rises rises) = mset (filter (\<lambda>r. \<not> isNaN r) rises)"
    by (rule mset_sorted_rises)
  have c3: "percentileIndex (sorted_rises rises) (Fin p) =
      Fin (of_int \<lfloor>fl (of_nat (length (sorted_rises rises)) * fl (1 - fl (p / 100)))\<rfloor>)"
    by (rule percentileIndex_fin)
  have c4: "100 / 2 ^ 53 \<le> p \<and> p \<le> 100 \<and> sorted_rises rises \<noteq> [] \<and>
     length (sorted_rises rises) < 2 ^ 32 \<longrightarrow>
       (\<exists>k. percentileIndex (sorted_rises rises) (Fin p) = Fin (of_int k) \<and>
            0 \<le> k \<and> k < int (length (sorted_rises rises)) \<and>
            \<bar>k - claimed_rank (length (sorted_rises rises)) p\<bar> \<le> 1 \<and>
            commonRiseSol_local rises (Fin p) = Some (sorted_rises rises ! nat k))"
    unfolding commonRiseSol_local_def
    using percentile_pick_in_range[of p "sorted_rises rises"] by blast
  have c5: "sorted_rises rises = [] \<longrightarrow> commonRiseSol_local rises w = Some (Fin 0)"
    by (simp add: commonRiseSol_local_def percentile_pick_def)
  have c6: "winPercent_of (f \<lparr> winPercent := None \<rparr>) = Fin 70"
    by (simp add: winPercent_of_def)
  have c7: "winPercent_of (f \<lparr> winPercent := Some w \<rparr>) = w"
    by (simp add: winPercent_of_def)
  have "commonRiseSol_local rises_A (Fin 70) = Some (dbl (4 / 10))"
    by code_simp
  then have c8: "commonRiseSol_local rises_A (winPercent_of (f \<lparr> winPercent := None \<rparr>)) =
      Some (dbl (4 / 10))"
    by (simp only: c6)
  have c9: "fetchProfitableTokenGroupsWithMigration c f db = Inr gs \<and> g \<in> set gs \<longrightarrow>
       commonRiseSol g =
         round_to 10000
           (commonRiseSol_local (map riseSol_of (TokenGroupStats.tokens g)) (winPercent_of f))"
    by (auto elim!: engine_member
        simp: to_stats_def commonRiseSol_local_def riseSols_def)
  have c10: "round_to 10000 (Some (dbl (4 / 10))) = dbl (4 / 10)"
    by code_simp
  show ?thesis
    by (intro conjI c1 c2 c3 c4 c5 c6 c7 c8 c9 c10)
qed

theorem percentile_estimator_witness:
  "100 / 2 ^ 53 \<le> (70 :: rat) \<and> (70 :: rat) \<le> 100 \<and> sorted_rises rises_A \<noteq> [] \<and>
   length (sorted_rises rises_A) < 2 ^ 32 \<and>
   percentileIndex (sorted_rises rises_A) (Fin 70) = Fin 1 \<and>
   claimed_rank (length (sorted_rises rises_A)) 70 = 1 \<and>
   commonRiseSol_local rises_A (Fin 70) = Some (sorted_rises rises_A ! 1) \<and>
   sorted_rises rises_A ! 1 = dbl (4 / 10) \<and>
   map riseSol_of scenario_rises = rises_A \<and>
   (let gs = projr (fetchProfitableTokenGroupsWithMigration by_pattern no_filters (Inr scenario_rises))
    in fetchProfitableTokenGroupsWithMigration by_pattern no_filters (Inr scenario_rises) = Inr gs \<and>
       hd gs \<in> set gs \<and>
       commonRiseSol (hd gs) =
         round_to 10000 (commonRiseSol_local (map riseSol_of (TokenGroupStats.tokens (hd gs)))
                           (winPercent_of no_filters)) \<and>
       map commonRiseSol gs = [dbl (4 / 10)])"
proof -
  let ?gs = "projr (fetchProfitableTokenGroupsWithMigration by_pattern no_filters (Inr scenario_rises))"
  have p0: "100 / 2 ^ 53 \<le> (70 :: rat)" and p1: "(70 :: rat) \<le> 100"
    by simp_all
  have s: "sorted_rises rises_A =
      [dbl (2 / 10), dbl (4 / 10), dbl (19 / 10), dbl (21 / 10), dbl (38 / 10), dbl (65 / 10)]"
    by code_simp
  have n: "sorted_rises rises_A \<noteq> []" and l: "length (sorted_rises rises_A) < 2 ^ 32"
    and v: "sorted_rises rises_A ! 1 = dbl (4 / 10)"
    unfolding s by simp_all
  have "percentileIndex
      [dbl (2 / 10), dbl (4 / 10), dbl (19 / 10), dbl (21 / 10), dbl (38 / 10), dbl (65 / 10)]
      (Fin 70) = Fin 1"
    by code_simp
  then have i: "percentileIndex (sorted_rises rises_A) (Fin 70) = Fin 1"
    by (simp only: s)
  have "claimed_rank 6 70 = 1"
    by code_simp
  moreover have "length (sorted_rises rises_A) = 6"
    unfolding s by simp
  ultimately have cr: "claimed_rank (length (sorted_rises rises_A)) 70 = 1"
    by (simp only:)
  note t = percentile_estimator[of rises_A 70 "Fin 70" no_filters by_pattern "Inr scenario_rises" ?gs "hd ?gs"]
  from t[THEN conjunct2, THEN conjunct2, THEN conjunct2, THEN conjunct1] p0 p1 n l
  obtain k where k: "percentileIndex (sorted_rises rises_A) (Fin 70) = Fin (of_int k)"
    and c: "commonRiseSol_local rises_A (Fin 70) = Some (sorted_rises rises_A ! nat k)"
    by blast
  from k i have "(of_int k :: rat) = 1" by simp
  then have "k = 1" by simp
  with c have c': "commonRiseSol_local rises_A (Fin 70) = Some (sorted_rises rises_A ! 1)"
    by simp
  have a: "map riseSol_of scenario_rises = rises_A"
    by code_simp
  have h1: "fetchProfitableTokenGroupsWithMigration by_pattern no_filters (Inr scenario_rises) = Inr ?gs"
    by (rule engine_Inr_projr)
  have "map (\<lambda>r. round_to 10000 (percentile_pick (riseSols (agg_result.tokens r)) (Fin 70)))
          (aggregate by_pattern no_filters scenario_rises) = [dbl (4 / 10)]"
    by code_simp
  moreover have "winPercent_of no_filters = Fin 70"
    by (simp add: winPercent_of_def no_filters_def)
  ultimately have m: "map commonRiseSol ?gs = [dbl (4 / 10)]"
    by (simp add: engine_projr comp_def to_stats_fields)
  then have "?gs \<noteq> []" by auto
  then have h2: "hd ?gs \<in> set ?gs" by simp
  from t[THEN conjunct2, THEN conjunct2, THEN conjunct2, THEN conjunct2, THEN conjunct2,
      THEN conjunct2, THEN conjunct2, THEN conjunct2, THEN conjunct1] h1 h2
  have e: "commonRiseSol (hd ?gs) =
         round_to 10000 (commonRiseSol_local (map riseSol_of (TokenGroupStats.tokens (hd ?gs)))
                           (winPercent_of no_filters))"
    by blast
  show ?thesis
    unfolding Let_def by (intro conjI p0 p1 n l i cr c' v a h1 h2 e m)
qed

subsection \<open>The rise of a member\<close>

lemma engine_commonRiseSol:
  assumes "fetchProfitableTokenGroupsWithMigration c f db = Inr gs" and "g \<in> set gs"
  shows "commonRiseSol g =
    round_to 10000 (percentile_pick (riseSols (TokenGroupStats.tokens g)) (winPercent_of f))"
    and "TokenGroupStats.totalTokens g = length (TokenGroupStats.tokens g)"
  using assms
  by (auto elim!: engine_member simp: to_stats_def project_stage_def acc_ok_def)

lemma threshold_literal: "5 / 100 \<le> fl (5 / 100)"
  by code_simp

text \<open>
  C5, as claimed, fails for the records of the threshold simulator, the second place
  that the claim covers. There the base value is the smaller of \<open>mintSlotSol\<close> and
  \<open>firstSlotSol\<close>: for an entry value of 1 over a first-slot value of 0.5 it is 0.5 and the
  rise from a peak of 5 is 4.5, where the claim gives the base value 1 and the rise 4.
  Nothing in that pipeline compares with 0.05 or reads \<open>mintBuyAmt\<close>.
\<close>

theorem baseline_counterexample:
  "profit_doc.mintSlotSol doc_first_lower = 1 \<and> firstSlotSol doc_first_lower = 1 / 2 \<and>
   profit_doc.maxSol doc_first_lower = 5 \<and>
   claimed_baseline (profit_doc.mintSlotSol doc_first_lower) 0 = 1 \<and>
   add_buyPriceSol doc_first_lower = 1 / 2 \<and>
   add_riseSol doc_first_lower = 9 / 2 \<and>
   map (\<lambda>g. map (\<lambda>t. (buyPriceSol t, riseSol t)) (profit_group.tokens g))
     (simulated_groups default_options 0 [doc_first_lower, doc_first_lower]) =
     [[(1 / 2, 9 / 2), (1 / 2, 9 / 2)]]"
  by code_simp

text \<open>
  C5, amended: in the grouping engine the base value of a member is its \<open>mintSlotSol\<close>,
  unless that is below 0.05 (an absent value counts as 0), in which case it is the
  member's \<open>mintBuyAmt\<close>; the rise is \<open>maxSol\<close> minus the base value, and in every
  returned group the percentile is taken over exactly the members' rises that are not
  NaN, while \<open>totalTokens\<close> counts every member. In the threshold simulator the base value
  of a record is the smaller of its \<open>mintSlotSol\<close> and \<open>firstSlotSol\<close>, with no threshold
  and no fallback.
\<close>

theorem rise_derivation:
  assumes "fetchProfitableTokenGroupsWithMigration c f db = Inr gs" and "g \<in> set gs"
  shows "(\<forall>t s. token_doc.mintSlotSol t = Some (Fin s) \<and> fl s = s \<and> 5 / 100 \<le> s \<longrightarrow>
             baseValue t = Fin s) \<and>
    (\<forall>t s. token_doc.mintSlotSol t = Some (Fin s) \<and> s < 5 / 100 \<longrightarrow>
             baseValue t = or0 (mintBuyAmt t)) \<and>
    (\<forall>t. token_doc.mintSlotSol t = None \<longrightarrow> baseValue t = or0 (mintBuyAmt t)) \<and>
    (\<forall>t. riseSol_of t = js_sub (or0 (token_doc.maxSol t)) (baseValue t)) \<and>
    mset (riseSols (TokenGroupStats.tokens g)) =
      mset (filter (\<lambda>r. \<not> isNaN r) (map riseSol_of (TokenGroupStats.tokens g))) \<and>
    commonRiseSol g =
      round_to 10000 (percentile_pick (riseSols (TokenGroupStats.tokens g)) (winPercent_of f)) \<and>
    TokenGroupStats.totalTokens g = length (TokenGroupStats.tokens g) \<and>
    (\<forall>d. add_buyPriceSol d = min (profit_doc.mintSlotSol d) (firstSlotSol d))"
proof -
  have a: "baseValue t = Fin s"
    if "token_doc.mintSlotSol t = Some (Fin s)" "fl s = s" "5 / 100 \<le> s" for t s
  proof -
    from fl_mono[OF that(3)] that(2) have "fl (5 / 100) \<le> s" by simp
    with that(1) show ?thesis by (simp add: baseValue_def)
  qed
  have b: "baseValue t = or0 (mintBuyAmt t)"
    if "token_doc.mintSlotSol t = Some (Fin s)" "s < 5 / 100" for t s
  proof -
    from that(2) threshold_literal have "s < fl (5 / 100)" by linarith
    with that(1) show ?thesis by (simp add: baseValue_def)
  qed
  have "(0 :: rat) < fl (5 / 100)" using threshold_literal by linarith
  then have c: "baseValue t = or0 (mintBuyAmt t)" if "token_doc.mintSlotSol t = None" for t
    using that by (simp add: baseValue_def)
  have d: "riseSol_of t = js_sub (or0 (token_doc.maxSol t)) (baseValue t)" for t
    by (simp add: riseSol_of_def)
  have e: "mset (riseSols ts) = mset (filter (\<lambda>r. \<not> isNaN r) (map riseSol_of ts))" for ts
    by (simp add: riseSols_def mset_sorted_rises)
  have m: "add_buyPriceSol d = min (profit_doc.mintSlotSol d) (firstSlotSol d)" for d
    by (simp add: add_buyPriceSol_def min_def)
  from a b c d e m engine_commonRiseSol[OF assms] show ?thesis by blast
qed

theorem rise_derivation_witness:
  "(let gs = projr (fetchProfitableTokenGroupsWithMigration by_pattern no_filters (Inr scenario_NaN));
        g = hd gs
    in fetchProfitableTokenGroupsWithMigration by_pattern no_filters (Inr scenario_NaN) = Inr gs \<and>
       g \<in> set gs \<and>
       map riseSol_of (TokenGroupStats.tokens g) = [NaN, Fin 3, Fin 4] \<and>
       mset (riseSols (TokenGroupStats.tokens g)) = {#Fin 3, Fin 4#} \<and>
       TokenGroupStats.totalTokens g = 3 \<and>
       commonRiseSol g = Fin 3)"
proof -
  let ?gs = "projr (fetchProfitableTokenGroupsWithMigration by_pattern no_filters (Inr scenario_NaN))"
  have h1: "fetchProfitableTokenGroupsWithMigration by_pattern no_filters (Inr scenario_NaN) = Inr ?gs"
    by (rule engine_Inr_projr)
  have "map (\<lambda>r. (agg_result.totalTokens r, map riseSol_of (agg_result.tokens r),
                  round_to 10000 (percentile_pick (riseSols (agg_result.tokens r)) (Fin 70))))
          (aggregate by_pattern no_filters scenario_NaN) = [(3, [NaN, Fin 3, Fin 4], Fin 3)]"
    by code_simp
  then obtain r where r: "aggregate by_pattern no_filters scenario_NaN = [r]"
    and f: "agg_result.totalTokens r = 3"
      "map riseSol_of (agg_result.tokens r) = [NaN, Fin 3, Fin 4]"
      "round_to 10000 (percentile_pick (riseSols (agg_result.tokens r)) (Fin 70)) = Fin 3"
    by (auto simp: map_eq_Cons_conv)
  have w: "winPercent_of no_filters = Fin 70"
    by (simp add: winPercent_of_def no_filters_def)
  note s = single_group[OF r]
  have h2: "hd ?gs \<in> set ?gs"
    by (rule s(3))
  have h3: "map riseSol_of (TokenGroupStats.tokens (hd ?gs)) = [NaN, Fin 3, Fin 4]"
    by (simp add: s(2) to_stats_fields f)
  have h4: "TokenGroupStats.totalTokens (hd ?gs) = 3"
    by (simp add: s(2) to_stats_fields f)
  have h5: "commonRiseSol (hd ?gs) = Fin 3"
    by (simp add: s(2) to_stats_fields f w)
  from rise_derivation[OF h1 h2] h3
  have h6: "mset (riseSols (TokenGroupStats.tokens (hd ?gs))) = {#Fin 3, Fin 4#}"
    by simp
  show ?thesis
    unfolding Let_def by (intro conjI h1 h2 h3 h6 h4 h5)
qed

subsection \<open>No validation of the configuration\<close>

text \<open>
  C7, as claimed, fails: with no dimension enabled, and with a \<open>winPercent\<close> of 150, the
  engine returns a result and no error; in the second case the index is -3 and the
  common rise is NaN.
\<close>

theorem no_validation_counterexample:
  "config_invalid no_dimension no_filters \<and>
   \<not> isl (fetchProfitableTokenGroupsWithMigration no_dimension no_filters (Inr scenario_A)) \<and>
   map TokenGroupStats.totalTokens
     (projr (fetchProfitableTokenGroupsWithMigration no_dimension no_filters (Inr scenario_A))) = [6] \<and>
   config_invalid by_pattern win_150 \<and>
   \<not> isl (fetchProfitableTokenGroupsWithMigration by_pattern win_150 (Inr scenario_A)) \<and>
   map commonRiseSol
     (projr (fetchProfitableTokenGroupsWithMigration by_pattern win_150 (Inr scenario_A))) = [NaN]"
proof -
  have a: "config_invalid no_dimension no_filters"
    by code_simp
  have b: "\<not> isl (fetchProfitableTokenGroupsWithMigration no_dimension no_filters (Inr scenario_A))"
    by (simp add: engine_Inr)
  have "map agg_result.totalTokens (aggregate no_dimension no_filters scenario_A) = [6]"
    by code_simp
  then have c: "map TokenGroupStats.totalTokens
     (projr (fetchProfitableTokenGroupsWithMigration no_dimension no_filters (Inr scenario_A))) = [6]"
    by (simp add: engine_projr comp_def to_stats_fields)
  have d: "config_invalid by_pattern win_150"
    by code_simp
  have e: "\<not> isl (fetchProfitableTokenGroupsWithMigration by_pattern win_150 (Inr scenario_A))"
    by (simp add: engine_Inr)
  have "map (\<lambda>r. round_to 10000 (percentile_pick (riseSols (agg_result.tokens r)) (Fin 150)))
          (aggregate by_pattern win_150 scenario_A) = [NaN]"
    by code_simp
  moreover have "winPercent_of win_150 = Fin 150"
    by (simp add: winPercent_of_def win_150_def)
  ultimately have f: "map commonRiseSol
     (projr (fetchProfitableTokenGroupsWithMigration by_pattern win_150 (Inr scenario_A))) = [NaN]"
    by (simp add: engine_projr comp_def to_stats_fields)
  show ?thesis
    by (intro conjI a b c d e f)
qed

lemma const_key_fold:
  assumes "\<forall>d\<in>set ds. kf d = k" and "acc_id a = k"
  shows "\<exists>a'. foldl (\<lambda>as d. group_step (kf d) d as) [a] ds = [a'] \<and>
              acc_id a' = k \<and> acc_tokens a' = acc_tokens a @ ds"
  using assms
proof (induction ds arbitrary: a)
  case Nil
  then show ?case by simp
next
  case (Cons d ds)
  have "acc_id (acc_add a d) = k" using Cons.prems by (simp add: acc_add_def)
  with Cons.IH[of "acc_add a d"] Cons.prems show ?case
    by (auto simp: acc_add_def)
qed

lemma const_key_group_stage:
  assumes "\<forall>d\<in>set ds. groupId c d = k" and "ds \<noteq> []"
  shows "\<exists>a. group_stage c ds = [a] \<and> acc_tokens a = ds"
proof -
  from assms(2) obtain d ds' where ds: "ds = d # ds'" by (cases ds) auto
  have "acc_id (acc_new k d) = k" by (simp add: acc_new_def)
  with const_key_fold[of ds' "groupId c" k "acc_new k d"] assms(1) ds
  show ?thesis by (auto simp: group_stage_def acc_new_def)
qed

lemma no_dimension_key:
  assumes "\<not> GroupingCriteria.mintPattern c" "\<not> GroupingCriteria.unitPrice c"
    "\<not> GroupingCriteria.unitLimit c" "\<not> GroupingCriteria.postMintBundle c"
  shows "groupId c d = groupId c d'"
  using assms by (simp add: groupId_def)

text \<open>
  C7, amended: the grouping engine checks neither the criteria nor \<open>winPercent\<close>. It
  fails exactly when reading the collection fails, with that error; otherwise it returns
  a list of groups, and with no dimension enabled the matching documents form one group.
\<close>

theorem engine_never_rejects:
  "(fetchProfitableTokenGroupsWithMigration c f db = Inl e \<longleftrightarrow> db = Inl e) \<and>
   (\<exists>gs. fetchProfitableTokenGroupsWithMigration c f (Inr ds) = Inr gs) \<and>
   (\<not> GroupingCriteria.mintPattern c \<and> \<not> GroupingCriteria.unitPrice c \<and>
    \<not> GroupingCriteria.unitLimit c \<and> \<not> GroupingCriteria.postMintBundle c \<and>
    filter (matchQuery f) ds \<noteq> [] \<longrightarrow>
      (\<exists>g. fetchProfitableTokenGroupsWithMigration c f (Inr ds) = Inr [g] \<and>
           TokenGroupStats.tokens g = filter (matchQuery f) ds))"
proof -
  have a: "fetchProfitableTokenGroupsWithMigration c f db = Inl e \<longleftrightarrow> db = Inl e"
    by (cases db) (simp_all add: fetchProfitableTokenGroupsWithMigration_def)
  have b: "\<exists>gs. fetchProfitableTokenGroupsWithMigration c f (Inr ds) = Inr gs"
    by (simp add: fetchProfitableTokenGroupsWithMigration_def)
  have c: "\<exists>g. fetchProfitableTokenGroupsWithMigration c f (Inr ds) = Inr [g] \<and>
           TokenGroupStats.tokens g = filter (matchQuery f) ds"
    if nd: "\<not> GroupingCriteria.mintPattern c" "\<not> GroupingCriteria.unitPrice c"
      "\<not> GroupingCriteria.unitLimit c" "\<not> GroupingCriteria.postMintBundle c"
      and ne: "filter (matchQuery f) ds \<noteq> []"
  proof -
    let ?ms = "filter (matchQuery f) ds"
    have "\<forall>d\<in>set ?ms. groupId c d = groupId c (hd ?ms)"
      using no_dimension_key[OF nd] by blast
    from const_key_group_stage[OF this ne] obtain a
      where "group_stage c ?ms = [a]" and "acc_tokens a = ?ms" by blast
    then show ?thesis
      by (simp add: fetchProfitableTokenGroupsWithMigration_def aggregate_def sort_by_def
          to_stats_def project_stage_def)
  qed
  from a b c show ?thesis by blast
qed

theorem engine_never_rejects_witness:
  "\<not> GroupingCriteria.mintPattern no_dimension \<and> \<not> GroupingCriteria.unitPrice no_dimension \<and>
   \<not> GroupingCriteria.unitLimit no_dimension \<and> \<not> GroupingCriteria.postMintBundle no_dimension \<and>
   filter (matchQuery win_150) scenario_A \<noteq> [] \<and>
   (\<exists>g. fetchProfitableTokenGroupsWithMigration no_dimension win_150 (Inr scenario_A) = Inr [g] \<and>
        TokenGroupStats.tokens g = scenario_A)"
proof -
  have h: "\<not> GroupingCriteria.mintPattern no_dimension \<and> \<not> GroupingCriteria.unitPrice no_dimension \<and>
   \<not> GroupingCriteria.unitLimit no_dimension \<and> \<not> GroupingCriteria.postMintBundle no_dimension"
    by (simp add: no_dimension_def)
  have m: "filter (matchQuery win_150) scenario_A = scenario_A"
    by code_simp
  have ne: "scenario_A \<noteq> []" by (simp add: scenario_A_def)
  from engine_never_rejects[of no_dimension win_150 "Inr scenario_A" "UpstreamFailure []" scenario_A] h m ne
  show ?thesis by simp
qed

subsection \<open>Order of the returned groups\<close>

text \<open>
  C10, as claimed, fails on ties: the groups are sorted before the rate is rounded, so
  two groups whose returned rates are equal can come with the smaller one first.
\<close>

theorem tie_order_counterexample:
  "\<not> isl (fetchProfitableTokenGroupsWithMigration by_pattern no_filters (Inr scenario_ties)) \<and>
   map (\<lambda>g. (TokenGroupStats.migrationRate g, TokenGroupStats.totalTokens g))
     (projr (fetchProfitableTokenGroupsWithMigration by_pattern no_filters (Inr scenario_ties))) =
     [(1 / 2, 200), (1 / 2, 201)] \<and>
   \<not> sorted_rate_total
     (projr (fetchProfitableTokenGroupsWithMigration by_pattern no_filters (Inr scenario_ties)))"
proof -
  let ?R = "fetchProfitableTokenGroupsWithMigration by_pattern no_filters (Inr scenario_ties)"
  have a: "\<not> isl ?R"
    by (simp add: fetchProfitableTokenGroupsWithMigration_def)
  have "map (\<lambda>r. (round2 (agg_result.migrationRate r), agg_result.totalTokens r))
          (aggregate by_pattern no_filters scenario_ties) = [(1 / 2, 200), (1 / 2, 201)]"
    by code_simp
  then have b: "map (\<lambda>g. (TokenGroupStats.migrationRate g, TokenGroupStats.totalTokens g)) (projr ?R) =
     [(1 / 2, 200), (1 / 2, 201)]"
    by (simp add: engine_projr comp_def to_stats_fields)
  have c: "\<not> sorted_rate_total (projr ?R)"
    unfolding sorted_rate_total_def b by (simp add: rate_then_total_def)
  from a b c show ?thesis by blast
qed

lemma sort_le_total: "sort_le g h \<or> sort_le h g"
  by (auto simp: sort_le_def)

lemma sort_le_trans: "sort_le g h \<Longrightarrow> sort_le h k \<Longrightarrow> sort_le g k"
  by (auto simp: sort_le_def)

lemma aggregate_sorted: "sorted_wrt sort_le (aggregate c f ds)"
  unfolding aggregate_def
  using sort_le_total sort_le_trans
  by (rule sorted_wrt_sort_by[where P = "\<lambda>_. True" and le = sort_le]) simp_all

lemma sorted_wrt_slice0: "sorted_wrt R xs \<Longrightarrow> sorted_wrt R (slice0 (filter P xs) l)"
  by (simp add: slice0_def sorted_wrt_filter sorted_wrt_take)

lemma unrounded_rate_to_stats:
  "unrounded_rate (to_stats p (project_stage a)) = agg_result.migrationRate (project_stage a)"
  by (simp add: unrounded_rate_def to_stats_def project_stage_def)

text \<open>
  Two different quotients of counts below \<open>2 ^ 25\<close> are more than \<open>1 / 2 ^ 50\<close> apart, which
  the two rounded operations of the \<open>$project\<close> stage cannot bridge: the doubles that the
  database sorts on are then in the order of the exact rates.
\<close>

lemma quotient_gap:
  fixes m t m' t' :: nat
  assumes t0: "0 < t" and t0': "0 < t'" and tb: "t < 2 ^ 25" and tb': "t' < 2 ^ 25"
    and lt: "(of_nat m :: rat) / of_nat t < of_nat m' / of_nat t'"
  shows "8 * (1 / 2 ^ 53) < (of_nat m' :: rat) / of_nat t' - of_nat m / of_nat t"
proof -
  let ?x = "(of_nat m :: rat) / of_nat t" and ?y = "(of_nat m' :: rat) / of_nat t'"
  let ?tt = "(of_nat t :: rat) * of_nat t'"
  have tt: "0 < ?tt" using t0 t0' by simp
  define D where "D = int m' * int t - int m * int t'"
  have D: "(of_int D :: rat) = (?y - ?x) * ?tt"
    using t0 t0' by (simp add: D_def field_simps)
  from lt have "0 < ?y - ?x" by simp
  from this tt have "(0 :: rat) < of_int D" unfolding D by (rule mult_pos_pos)
  then have "1 \<le> D" by simp
  then have "(1 :: rat) \<le> of_int D" by simp
  then have "1 \<le> (?y - ?x) * ?tt" by (simp only: D)
  then have g: "1 / ?tt \<le> ?y - ?x" by (simp only: pos_divide_le_eq[OF tt])
  have "t * t' < 2 ^ 25 * 2 ^ 25"
    using tb tb' by (intro mult_strict_mono) simp_all
  then have "(of_nat (t * t') :: rat) < of_nat (2 ^ 25 * 2 ^ 25)" by (simp only: of_nat_less_iff)
  then have "?tt < 2 ^ 50" by simp
  then have "(1 :: rat) / 2 ^ 50 < 1 / ?tt"
    using tt by (intro divide_strict_left_mono) simp_all
  moreover have "8 * (1 / 2 ^ 53) = (1 :: rat) / 2 ^ 50" by simp
  ultimately show ?thesis using g by linarith
qed

lemma gap_chain:
  fixes x y a a' b b' e :: rat
  assumes "\<bar>a - x\<bar> \<le> e" and "\<bar>a' - y\<bar> \<le> e"
    and "\<bar>b - a * 100\<bar> \<le> 100 * e" and "\<bar>b' - a' * 100\<bar> \<le> 100 * e"
    and "8 * e < y - x"
  shows "b < b'"
  using assms unfolding abs_le_iff by (auto simp: algebra_simps)

lemma rate_strict:
  fixes m t m' t' :: nat
  assumes t0: "0 < t" and mt: "m \<le> t" and t0': "0 < t'" and mt': "m' \<le> t'"
    and tb: "t < 2 ^ 25" and tb': "t' < 2 ^ 25"
    and lt: "(of_nat m :: rat) / of_nat t < of_nat m' / of_nat t'"
  shows "fl (fl (of_nat m / of_nat t) * 100) < fl (fl (of_nat m' / of_nat t') * 100)"
proof -
  let ?x = "(of_nat m :: rat) / of_nat t" and ?y = "(of_nat m' :: rat) / of_nat t'"
  note q = quotient_range[OF t0 mt] and q' = quotient_range[OF t0' mt']
  note r = rate_range[OF t0 mt] and r' = rate_range[OF t0' mt']
  have "\<bar>?x\<bar> \<le> 1" using q by simp
  from fl_err_le[OF this] have ea: "\<bar>fl ?x - ?x\<bar> \<le> 1 / 2 ^ 53" .
  have "\<bar>?y\<bar> \<le> 1" using q' by simp
  from fl_err_le[OF this] have ea': "\<bar>fl ?y - ?y\<bar> \<le> 1 / 2 ^ 53" .
  have "\<bar>fl ?x * 100\<bar> \<le> 100" using r(1,2) by simp
  from fl_err_le[OF this] have eb: "\<bar>fl (fl ?x * 100) - fl ?x * 100\<bar> \<le> 100 * (1 / 2 ^ 53)"
    by simp
  have "\<bar>fl ?y * 100\<bar> \<le> 100" using r'(1,2) by simp
  from fl_err_le[OF this] have eb': "\<bar>fl (fl ?y * 100) - fl ?y * 100\<bar> \<le> 100 * (1 / 2 ^ 53)"
    by simp
  from ea ea' eb eb' quotient_gap[OF t0 t0' tb tb' lt] show ?thesis
    by (rule gap_chain)
qed

lemma engine_sorted:
  assumes "fetchProfitableTokenGroupsWithMigration c f db = Inr gs"
  shows "sorted_wrt by_unrounded_rate_then_total gs" and "sorted_wrt by_rate gs"
    and "(\<forall>g\<in>set gs. TokenGroupStats.totalTokens g < 2 ^ 25) \<Longrightarrow>
           sorted_wrt by_exact_rate_then_total gs"
proof -
  from assms obtain ds where gs: "gs = map (to_stats (winPercent_of f)) (aggregate c f ds)"
    by (auto simp: fetchProfitableTokenGroupsWithMigration_def split: sum.splits)
  let ?p = "winPercent_of f"
  let ?A = "aggregate c f ds"
  have s: "sorted_wrt sort_le ?A" by (rule aggregate_sorted)
  have f3: "TokenGroupStats.totalTokens (to_stats ?p r) = agg_result.totalTokens r"
    "TokenGroupStats.migrationRate (to_stats ?p r) = round2 (agg_result.migrationRate r)" for r
    by (simp_all add: to_stats_def)
  have m: "by_unrounded_rate_then_total (to_stats ?p r) (to_stats ?p r') \<and>
           by_rate (to_stats ?p r) (to_stats ?p r')"
    if "r \<in> set ?A" "r' \<in> set ?A" "sort_le r r'" for r r'
  proof -
    from that(1) obtain a where a: "acc_ok a" "r = project_stage a" by (rule aggregate_member)
    from that(2) obtain a' where a': "acc_ok a'" "r' = project_stage a'" by (rule aggregate_member)
    have 1: "unrounded_rate (to_stats ?p r) = agg_result.migrationRate r"
      unfolding a by (rule unrounded_rate_to_stats)
    have 2: "unrounded_rate (to_stats ?p r') = agg_result.migrationRate r'"
      unfolding a' by (rule unrounded_rate_to_stats)
    from that(3) have "agg_result.migrationRate r' \<le> agg_result.migrationRate r"
      by (auto simp: sort_le_def)
    then have "round2 (agg_result.migrationRate r') \<le> round2 (agg_result.migrationRate r)"
      by (rule round2_mono)
    with that(3) show ?thesis
      unfolding by_unrounded_rate_then_total_def by_rate_def 1 2 f3 by (simp add: sort_le_def)
  qed
  have "sorted_wrt (\<lambda>r r'. by_unrounded_rate_then_total (to_stats ?p r) (to_stats ?p r')) ?A"
    by (rule sorted_wrt_mono_rel[of ?A sort_le
          "\<lambda>r r'. by_unrounded_rate_then_total (to_stats ?p r) (to_stats ?p r')"])
      (use m s in blast)+
  then show "sorted_wrt by_unrounded_rate_then_total gs"
    by (simp add: gs sorted_wrt_map)
  have "sorted_wrt (\<lambda>r r'. by_rate (to_stats ?p r) (to_stats ?p r')) ?A"
    by (rule sorted_wrt_mono_rel[of ?A sort_le
          "\<lambda>r r'. by_rate (to_stats ?p r) (to_stats ?p r')"])
      (use m s in blast)+
  then show "sorted_wrt by_rate gs"
    by (simp add: gs sorted_wrt_map)
  show "sorted_wrt by_exact_rate_then_total gs"
    if small: "\<forall>g\<in>set gs. TokenGroupStats.totalTokens g < 2 ^ 25"
  proof -
    have x: "by_exact_rate_then_total (to_stats ?p r) (to_stats ?p r')"
      if "r \<in> set ?A" "r' \<in> set ?A" "sort_le r r'" for r r'
    proof -
      from that(1) obtain a where a: "acc_ok a" "r = project_stage a" by (rule aggregate_member)
      from that(2) obtain a' where a': "acc_ok a'" "r' = project_stage a'" by (rule aggregate_member)
      let ?m = "acc_migratedTokens a" and ?t = "acc_totalTokens a"
      let ?m' = "acc_migratedTokens a'" and ?t' = "acc_totalTokens a'"
      let ?x = "(of_nat ?m :: rat) / of_nat ?t" and ?y = "(of_nat ?m' :: rat) / of_nat ?t'"
      from a(1) have le: "?m \<le> ?t" and pos: "0 < ?t" by (auto simp: acc_ok_def)
      from a'(1) have le': "?m' \<le> ?t'" and pos': "0 < ?t'" by (auto simp: acc_ok_def)
      have "to_stats ?p r \<in> set gs" "to_stats ?p r' \<in> set gs"
        using that(1,2) by (simp_all add: gs)
      with small have "TokenGroupStats.totalTokens (to_stats ?p r) < 2 ^ 25"
        "TokenGroupStats.totalTokens (to_stats ?p r') < 2 ^ 25" by blast+
      then have tb: "?t < 2 ^ 25" and tb': "?t' < 2 ^ 25"
        by (simp_all add: a a' to_stats_def project_stage_def)
      have k: "agg_result.migrationRate r = fl (fl ?x * 100)"
        "agg_result.migrationRate r' = fl (fl ?y * 100)"
        "agg_result.totalTokens r = ?t" "agg_result.totalTokens r' = ?t'"
        by (simp_all add: a a' project_stage_def)
      have e: "exact_rate (to_stats ?p r) = ?x * 100" "exact_rate (to_stats ?p r') = ?y * 100"
        by (simp_all add: exact_rate_def a a' to_stats_def project_stage_def)
      have nolt: "\<not> ?x < ?y"
      proof
        assume "?x < ?y"
        from rate_strict[OF pos le pos' le' tb tb' this] that(3) show False
          by (simp add: sort_le_def k)
      qed
      show ?thesis
      proof (cases "?x = ?y")
        case True
        with that(3) have "?t' \<le> ?t" by (simp add: sort_le_def k)
        with True show ?thesis
          unfolding by_exact_rate_then_total_def e f3 k by simp
      next
        case False
        with nolt have "?y < ?x" by simp
        then have "?y * 100 < ?x * 100" by (simp only: mult_less_cancel_right_pos zero_less_numeral)
        then show ?thesis
          unfolding by_exact_rate_then_total_def e by (rule disjI1)
      qed
    qed
    have "sorted_wrt (\<lambda>r r'. by_exact_rate_then_total (to_stats ?p r) (to_stats ?p r')) ?A"
      by (rule sorted_wrt_mono_rel[of ?A sort_le
            "\<lambda>r r'. by_exact_rate_then_total (to_stats ?p r) (to_stats ?p r')"])
        (use x s in blast)+
    then show ?thesis by (simp add: gs sorted_wrt_map)
  qed
qed

text \<open>
  C10, amended: the returned list is sorted by \<open>migrationRate\<close>, largest first, and
  groups whose rate before \<open>Math.round\<close> is equal are ordered by \<open>totalTokens\<close>, largest
  first: the list is sorted by that rate, the double which the database computes from
  the two counts, and then by \<open>totalTokens\<close>; when every group has fewer than \<open>2 ^ 25\<close>
  members it is sorted in the same way by the exact rate. \<open>getTopMigratingGroups\<close>
  returns the groups of at least 2 members, in that order, cut to the limit (the first
  \<open>l\<close> of them for a limit \<open>l \<ge> 0\<close>), so its result is sorted in the same way.
\<close>

theorem engine_order:
  assumes "fetchProfitableTokenGroupsWithMigration c f db = Inr gs"
  shows "sorted_wrt by_rate gs \<and> sorted_wrt by_unrounded_rate_then_total gs \<and>
    ((\<forall>g\<in>set gs. TokenGroupStats.totalTokens g < 2 ^ 25) \<longrightarrow>
       sorted_wrt by_exact_rate_then_total gs) \<and>
    (\<exists>top. getTopMigratingGroups c f cap db = Inr top \<and>
       top = slice0 (filter (\<lambda>g. 2 \<le> TokenGroupStats.totalTokens g) gs)
               (case cap of None \<Rightarrow> 10 | Some l \<Rightarrow> l) \<and>
       sorted_wrt by_rate top \<and> sorted_wrt by_unrounded_rate_then_total top \<and>
       ((\<forall>g\<in>set gs. TokenGroupStats.totalTokens g < 2 ^ 25) \<longrightarrow>
          sorted_wrt by_exact_rate_then_total top) \<and>
       (\<forall>g\<in>set top. g \<in> set gs \<and> 2 \<le> TokenGroupStats.totalTokens g) \<and>
       (\<forall>l. cap = Some l \<and> 0 \<le> l \<longrightarrow>
          top = take (nat l) (filter (\<lambda>g. 2 \<le> TokenGroupStats.totalTokens g) gs)))"
proof -
  let ?l = "case cap of None \<Rightarrow> 10 | Some l \<Rightarrow> l"
  let ?top = "slice0 (filter (\<lambda>g. 2 \<le> TokenGroupStats.totalTokens g) gs) ?l"
  note s = engine_sorted[OF assms]
  have t: "getTopMigratingGroups c f cap db = Inr ?top"
    using assms by (simp add: getTopMigratingGroups_def)
  have m: "\<forall>g\<in>set ?top. g \<in> set gs \<and> 2 \<le> TokenGroupStats.totalTokens g"
    by (auto simp: slice0_def dest!: in_set_takeD)
  have k: "\<forall>l. cap = Some l \<and> 0 \<le> l \<longrightarrow>
          ?top = take (nat l) (filter (\<lambda>g. 2 \<le> TokenGroupStats.totalTokens g) gs)"
    by (auto simp: slice0_def)
  have x: "(\<forall>g\<in>set gs. TokenGroupStats.totalTokens g < 2 ^ 25) \<longrightarrow>
       sorted_wrt by_exact_rate_then_total gs"
    using s(3) by blast
  have x': "(\<forall>g\<in>set gs. TokenGroupStats.totalTokens g < 2 ^ 25) \<longrightarrow>
       sorted_wrt by_exact_rate_then_total ?top"
    using s(3) sorted_wrt_slice0[of by_exact_rate_then_total gs] by blast
  from s(1,2) t m k x x' sorted_wrt_slice0[OF s(1)] sorted_wrt_slice0[OF s(2)]
  show ?thesis by blast
qed

theorem engine_order_witness:
  "(let gs = projr (fetchProfitableTokenGroupsWithMigration by_pattern no_filters (Inr scenario_two))
    in fetchProfitableTokenGroupsWithMigration by_pattern no_filters (Inr scenario_two) = Inr gs \<and>
       map (\<lambda>g. (TokenGroupStats.migrationRate g, TokenGroupStats.totalTokens g)) gs =
         [(100, 1), (fl (6667 / 100), 6)] \<and>
       (\<forall>g\<in>set gs. TokenGroupStats.totalTokens g < 2 ^ 25) \<and>
       sorted_wrt by_rate gs \<and> sorted_wrt by_unrounded_rate_then_total gs \<and>
       sorted_wrt by_exact_rate_then_total gs \<and>
       getTopMigratingGroups by_pattern no_filters (Some 5) (Inr scenario_two) = Inr (tl gs))"
proof -
  let ?gs = "projr (fetchProfitableTokenGroupsWithMigration by_pattern no_filters (Inr scenario_two))"
  have h1: "fetchProfitableTokenGroupsWithMigration by_pattern no_filters (Inr scenario_two) = Inr ?gs"
    by (rule engine_Inr_projr)
  have "map (\<lambda>r. (round2 (agg_result.migrationRate r), agg_result.totalTokens r))
          (aggregate by_pattern no_filters scenario_two) = [(100, 1), (fl (6667 / 100), 6)]"
    by code_simp
  then have h2: "map (\<lambda>g. (TokenGroupStats.migrationRate g, TokenGroupStats.totalTokens g)) ?gs =
         [(100, 1), (fl (6667 / 100), 6)]"
    by (simp add: engine_projr comp_def to_stats_fields)
  then obtain g1 g2 where g: "?gs = [g1, g2]"
    and tt: "TokenGroupStats.totalTokens g1 = 1" "TokenGroupStats.totalTokens g2 = 6"
    by (auto simp: map_eq_Cons_conv)
  have b: "\<forall>g\<in>set ?gs. TokenGroupStats.totalTokens g < 2 ^ 25"
    unfolding g by (simp add: tt)
  have h3: "take 5 (filter (\<lambda>g. 2 \<le> TokenGroupStats.totalTokens g) ?gs) = tl ?gs"
    unfolding g by (simp add: tt)
  note e = engine_order[OF h1, of "Some 5"]
  note s1 = e[THEN conjunct1] and s2 = e[THEN conjunct2, THEN conjunct1]
  note s3 = e[THEN conjunct2, THEN conjunct2, THEN conjunct1, THEN mp, OF b]
  from e[THEN conjunct2, THEN conjunct2, THEN conjunct2] obtain top where
    tu: "getTopMigratingGroups by_pattern no_filters (Some 5) (Inr scenario_two) = Inr top \<and>
       top = slice0 (filter (\<lambda>g. 2 \<le> TokenGroupStats.totalTokens g) ?gs)
               (case Some 5 of None \<Rightarrow> 10 | Some l \<Rightarrow> l) \<and>
       sorted_wrt by_rate top \<and> sorted_wrt by_unrounded_rate_then_total top \<and>
       ((\<forall>g\<in>set ?gs. TokenGroupStats.totalTokens g < 2 ^ 25) \<longrightarrow>
          sorted_wrt by_exact_rate_then_total top) \<and>
       (\<forall>g\<in>set top. g \<in> set ?gs \<and> 2 \<le> TokenGroupStats.totalTokens g) \<and>
       (\<forall>l. Some 5 = Some l \<and> 0 \<le> l \<longrightarrow>
          top = take (nat l) (filter (\<lambda>g. 2 \<le> TokenGroupStats.totalTokens g) ?gs))" ..
  note t = tu[THEN conjunct1] and u = tu[THEN conjunct2, THEN conjunct1]
  from u have "top = take 5 (filter (\<lambda>g. 2 \<le> TokenGroupStats.totalTokens g) ?gs)"
    by (simp only: slice0_def option.case) simp
  with h3 have "top = tl ?gs" by (simp only:)
  with t have k: "getTopMigratingGroups by_pattern no_filters (Some 5) (Inr scenario_two) = Inr (tl ?gs)"
    by (simp only:)
  show ?thesis
    unfolding Let_def by (intro conjI h1 h2 b s1 s2 s3 k)
qed

section \<open>Properties of the threshold simulator\<close>

subsection \<open>What the \<open>$group\<close> stage maintains\<close>

lemma p_new_ok: "p_ok (p_new k t)"
  by (simp add: p_ok_def p_new_def)

lemma p_add_ok: "p_ok a \<Longrightarrow> p_ok (p_add a t)"
  by (simp add: p_ok_def p_add_def)

lemma p_step_ok: "list_all p_ok as \<Longrightarrow> list_all p_ok (p_step k t as)"
  by (induction as) (simp_all add: p_new_ok p_add_ok)

lemma foldl_p_step_ok:
  "list_all p_ok as \<Longrightarrow> list_all p_ok (foldl (\<lambda>as d. p_step (kf d) (tf d) as) as ds)"
  by (induction ds arbitrary: as) (simp_all add: p_step_ok)

lemma finish_group_ok: "p_ok a \<Longrightarrow> group_ok (finish_group a)"
  by (simp add: p_ok_def group_ok_def finish_group_def avg_def)

lemma profit_group_stage_ok: "g \<in> set (profit_group_stage b ds) \<Longrightarrow> group_ok g"
proof -
  assume "g \<in> set (profit_group_stage b ds)"
  then obtain a where a: "a \<in> set (foldl (\<lambda>as d. p_step (profit_groupId b d) (push_token d) as) [] ds)"
    and g: "g = finish_group a"
    by (auto simp: profit_group_stage_def)
  have "list_all p_ok (foldl (\<lambda>as d. p_step (profit_groupId b d) (push_token d) as) [] ds)"
    by (rule foldl_p_step_ok) simp
  with a have "p_ok a" by (simp add: list_all_iff)
  with g show ?thesis by (simp add: finish_group_ok)
qed




lemma simulated_groups_ok: "g \<in> set (simulated_groups opts sd ds) \<Longrightarrow> group_ok g"
  by (auto simp: simulated_groups_def dest: profit_group_stage_ok)


subsection \<open>The candidates and their scores\<close>

lemma length_candidates: "length (thresholdCandidates g) = 7"
  by (simp add: thresholdCandidates_def multipliers_def)

lemma length_scores: "length (thresholdScores g) = 7"
  by (simp add: thresholdScores_def thresholdAnalysis_def thresholdSimulations_def length_candidates)

lemma simulation_nth:
  assumes "i < 7"
  shows "thresholdSimulations g ! i =
    \<lparr> simulation.threshold = thresholdCandidates g ! i,
      results = map (simulate_token (thresholdCandidates g ! i)) (profit_group.tokens g) \<rparr>"
  using assms by (simp add: thresholdSimulations_def length_candidates)

lemma count_wins:
  "length (filter isWin (map (simulate_token th) ts)) = length (filter (\<lambda>t. th \<le> riseSol t) ts)"
  by (induction ts) (simp_all add: simulate_token_def)

lemma count_losses:
  "length (filter (\<lambda>r. \<not> isWin r) (map (simulate_token th) ts)) =
   length (filter (\<lambda>t. riseSol t < th) ts)"
  by (induction ts) (simp_all add: simulate_token_def not_le)

lemma score_nth:
  assumes "i < 7"
  shows "threshold (thresholdScores g ! i) = thresholdCandidates g ! i"
    and "winCount (thresholdScores g ! i) =
           length (filter (\<lambda>t. thresholdCandidates g ! i \<le> riseSol t) (profit_group.tokens g))"
    and "lossCount (thresholdScores g ! i) =
           length (filter (\<lambda>t. riseSol t < thresholdCandidates g ! i) (profit_group.tokens g))"
    and "avgProfit (thresholdScores g ! i) =
           avg (map (\<lambda>t. profitLoss (simulate_token (thresholdCandidates g ! i) t)) (profit_group.tokens g))"
    and "totalProfit (thresholdScores g ! i) =
           sum_list (map (\<lambda>t. profitLoss (simulate_token (thresholdCandidates g ! i) t)) (profit_group.tokens g))"
    and "winRate (thresholdScores g ! i) =
           of_nat (winCount (thresholdScores g ! i)) / of_nat (profit_group.totalTokens g)"
    and "score.profitabilityScore (thresholdScores g ! i) =
           winRate (thresholdScores g ! i) * avgProfit (thresholdScores g ! i)"
  using assms
  by (simp_all add: thresholdScores_def thresholdAnalysis_def thresholdSimulations_def
      length_candidates filter_map comp_def simulate_token_def not_le)

lemma length_multipliers: "length multipliers = 7"
  by (simp add: multipliers_def)

lemma candidate_nth: "i < 7 \<Longrightarrow> thresholdCandidates g ! i = profit_group.avgRiseSol g * multipliers ! i"
  by (simp add: thresholdCandidates_def length_multipliers)

lemma wins_antimono:
  fixes th :: rat
  shows "th \<le> th' \<Longrightarrow>
    length (filter (\<lambda>t. th' \<le> riseSol t) ts) \<le> length (filter (\<lambda>t. th \<le> riseSol t) ts)"
  by (induction ts) auto

lemma wins_plus_losses:
  "length (filter (\<lambda>t. th \<le> riseSol t) ts) + length (filter (\<lambda>t. riseSol t < th) ts) = length ts"
  by (induction ts) auto

lemma multipliers_mono: "i \<le> j \<Longrightarrow> j < 7 \<Longrightarrow> multipliers ! i \<le> multipliers ! j"
proof -
  assume "i \<le> j" "j < 7"
  then have "i \<in> {0,1,2,3,4,5,6}" "j \<in> {0,1,2,3,4,5,6}" by auto
  with \<open>i \<le> j\<close> show ?thesis
    by (auto simp: multipliers_def)
qed

lemma multipliers_pos: "m \<in> set multipliers \<Longrightarrow> 0 < m"
  by (auto simp: multipliers_def)



lemma result_member:
  assumes "findProfitableTokenGroups opts sd db = Inr rs" and "r \<in> set rs"
  obtains ds g where "db = Inr ds" and "g \<in> set (simulated_groups opts sd ds)"
    and "r = project_group g"
proof -
  from assms(1) obtain ds where db: "db = Inr ds"
    by (cases db) (simp_all add: findProfitableTokenGroups_def)
  let ?l = "case limit opts of None \<Rightarrow> 50 | Some l \<Rightarrow> l"
  from assms(1) db have rs: "rs = map project_group
      (take (nat ?l) (sort_desc (sortField opts) (simulated_groups opts sd ds)))"
    by (simp add: findProfitableTokenGroups_def Let_def split: if_splits)
  with assms(2) obtain g where "r = project_group g"
    and "g \<in> set (take (nat ?l) (sort_desc (sortField opts) (simulated_groups opts sd ds)))"
    by auto
  then have "g \<in> set (simulated_groups opts sd ds)"
    by (auto dest!: in_set_takeD simp: sort_desc_def set_sort_by)
  with db \<open>r = project_group g\<close> that show thesis by blast
qed

lemma project_group_fields:
  "allThresholdOptions (project_group g) = thresholdScores g"
  "profit_result.totalTokens (project_group g) = profit_group.totalTokens g"
  "profit_result.avgRiseSol (project_group g) = profit_group.avgRiseSol g"
  "riskLevel (project_group g) = risk_of (optimalThresholdData g)"
  "recommendedWinRate (project_group g) = map_option (\<lambda>s. winRate s * 100) (optimalThresholdData g)"
  "recommendedSellThreshold (project_group g) = map_option threshold (optimalThresholdData g)"
  by (simp_all add: project_group_def Let_def)

lemma query_result:
  "findProfitableTokenGroups default_options sd (Inr ds) =
     Inr (map project_group
            (take 50 (sort_desc (sortField default_options)
                        (simulated_groups default_options sd ds))))"
  by (simp add: findProfitableTokenGroups_def default_options_def)

lemma in_set_mapI: "x \<in> set xs \<Longrightarrow> f x \<in> set (map f xs)"
  by simp

subsection \<open>Wins and losses\<close>

text \<open>
  C6: in every group that the simulator returns, each of the seven candidates has
  \<open>winCount + lossCount = totalTokens\<close>, and a candidate with a larger threshold never has
  a larger \<open>winCount\<close>; when the average rise is not negative the ladder ascends with the
  position, so \<open>winCount\<close> does not increase along it.
\<close>

theorem win_loss_partition:
  assumes "findProfitableTokenGroups opts sd db = Inr rs" and "r \<in> set rs"
  shows "length (allThresholdOptions r) = 7 \<and>
    (\<forall>s\<in>set (allThresholdOptions r). winCount s + lossCount s = profit_result.totalTokens r) \<and>
    (\<forall>s\<in>set (allThresholdOptions r). \<forall>s'\<in>set (allThresholdOptions r).
        threshold s \<le> threshold s' \<longrightarrow> winCount s' \<le> winCount s) \<and>
    (0 \<le> profit_result.avgRiseSol r \<longrightarrow>
       (\<forall>i j. i \<le> j \<and> j < 7 \<longrightarrow>
          threshold (allThresholdOptions r ! i) \<le> threshold (allThresholdOptions r ! j) \<and>
          winCount (allThresholdOptions r ! j) \<le> winCount (allThresholdOptions r ! i)))"
proof -
  from assms obtain ds g where g: "g \<in> set (simulated_groups opts sd ds)"
    and r: "r = project_group g"
    by (rule result_member)
  let ?ts = "profit_group.tokens g"
  let ?sc = "thresholdScores g"
  have ok: "profit_group.totalTokens g = length ?ts"
    using simulated_groups_ok[OF g] by (simp add: group_ok_def)
  have wins: "winCount s = length (filter (\<lambda>t. threshold s \<le> riseSol t) ?ts)"
    and losses: "lossCount s = length (filter (\<lambda>t. riseSol t < threshold s) ?ts)"
    if "s \<in> set ?sc" for s
  proof -
    from that obtain i where i: "i < 7" "s = ?sc ! i"
      by (auto simp: in_set_conv_nth length_scores)
    show "winCount s = length (filter (\<lambda>t. threshold s \<le> riseSol t) ?ts)"
      using score_nth(1,2)[OF i(1), of g] i(2) by simp
    show "lossCount s = length (filter (\<lambda>t. riseSol t < threshold s) ?ts)"
      using score_nth(1,3)[OF i(1), of g] i(2) by simp
  qed
  have a: "\<forall>s\<in>set ?sc. winCount s + lossCount s = profit_group.totalTokens g"
  proof
    fix s assume "s \<in> set ?sc"
    then show "winCount s + lossCount s = profit_group.totalTokens g"
      using wins[of s] losses[of s] wins_plus_losses[of "threshold s" ?ts] ok by simp
  qed
  have b: "\<forall>s\<in>set ?sc. \<forall>s'\<in>set ?sc. threshold s \<le> threshold s' \<longrightarrow> winCount s' \<le> winCount s"
  proof (intro ballI impI)
    fix s s' assume "s \<in> set ?sc" "s' \<in> set ?sc" "threshold s \<le> threshold s'"
    then show "winCount s' \<le> winCount s"
      using wins[of s] wins[of s'] wins_antimono[of "threshold s" "threshold s'" ?ts] by simp
  qed
  have c: "threshold (?sc ! i) \<le> threshold (?sc ! j) \<and> winCount (?sc ! j) \<le> winCount (?sc ! i)"
    if "0 \<le> profit_group.avgRiseSol g" "i \<le> j" "j < 7" for i j
  proof -
    from that have i: "i < 7" by simp
    have "threshold (?sc ! i) = profit_group.avgRiseSol g * multipliers ! i"
      "threshold (?sc ! j) = profit_group.avgRiseSol g * multipliers ! j"
      using score_nth(1)[OF i, of g] score_nth(1)[OF that(3), of g]
        candidate_nth[OF i, of g] candidate_nth[OF that(3), of g] by simp_all
    then have le: "threshold (?sc ! i) \<le> threshold (?sc ! j)"
      using multipliers_mono[OF that(2,3)] that(1) by (simp add: mult_left_mono)
    have "?sc ! i \<in> set ?sc" "?sc ! j \<in> set ?sc"
      using i that(3) by (simp_all add: length_scores)
    with b le show ?thesis by blast
  qed
  show ?thesis
    unfolding r project_group_fields using a b c length_scores[of g] by blast
qed

theorem win_loss_partition_witness:
  "(let gs = take 50 (sort_desc (sortField default_options)
                        (simulated_groups default_options 0 scenario_partial));
        r = project_group (hd gs)
    in findProfitableTokenGroups default_options 0 (Inr scenario_partial) =
         Inr (map project_group gs) \<and>
       r \<in> set (map project_group gs) \<and> profit_result.totalTokens r = 3 \<and>
       length (allThresholdOptions r) = 7 \<and>
       map (\<lambda>s. (winCount s, lossCount s)) (allThresholdOptions r) =
         [(2, 1), (2, 1), (2, 1), (2, 1), (1, 2), (1, 2), (1, 2)])"
proof -
  let ?gs = "take 50 (sort_desc (sortField default_options)
                        (simulated_groups default_options 0 scenario_partial))"
  let ?r = "project_group (hd ?gs)"
  have h1: "findProfitableTokenGroups default_options 0 (Inr scenario_partial) =
         Inr (map project_group ?gs)"
    by (rule query_result)
  have "hd ?gs \<in> set ?gs"
    by code_simp
  then have h2: "?r \<in> set (map project_group ?gs)"
    by (rule in_set_mapI)
  have "profit_group.totalTokens (hd ?gs) = 3"
    by code_simp
  then have e1: "profit_result.totalTokens ?r = 3"
    by (simp only: project_group_fields)
  have "map (\<lambda>s. (winCount s, lossCount s)) (thresholdScores (hd ?gs)) =
         [(2, 1), (2, 1), (2, 1), (2, 1), (1, 2), (1, 2), (1, 2)]"
    by code_simp
  then have e2: "map (\<lambda>s. (winCount s, lossCount s)) (allThresholdOptions ?r) =
         [(2, 1), (2, 1), (2, 1), (2, 1), (1, 2), (1, 2), (1, 2)]"
    by (simp only: project_group_fields)
  note l = win_loss_partition[OF h1 h2, THEN conjunct1]
  show ?thesis
    unfolding Let_def by (intro conjI h1 h2 e1 l e2)
qed

subsection \<open>Groups whose average rise is not positive\<close>







subsection \<open>The risk label\<close>



section \<open>Properties of the candidates and scores in binary64\<close>

subsection \<open>The stages, position by position\<close>

lemma length_candidates64: "length (thresholdCandidates64 g) = 7"
  by (simp add: thresholdCandidates64_def multipliers_def)

lemma length_scores64: "length (thresholdScores64 db_sum db_avg g) = 7"
  by (simp add: thresholdScores64_def thresholdAnalysis64_def thresholdSimulations64_def
      length_candidates64)

lemma candidate64_nth:
  "i < 7 \<Longrightarrow>
   thresholdCandidates64 g ! i = fl (profit_group.avgRiseSol g * fl (multipliers ! i))"
  by (simp add: thresholdCandidates64_def length_multipliers)

lemma simulation64_nth:
  assumes "i < 7"
  shows "thresholdSimulations64 g ! i =
    \<lparr> simulation.threshold = thresholdCandidates64 g ! i,
      results = map (simulate_token (thresholdCandidates64 g ! i)) (profit_group.tokens g) \<rparr>"
  using assms by (simp add: thresholdSimulations64_def length_candidates64)

lemma score64_nth:
  assumes "i < 7"
  shows "threshold (thresholdScores64 db_sum db_avg g ! i) = thresholdCandidates64 g ! i"
    and "winCount (thresholdScores64 db_sum db_avg g ! i) =
           length (filter isWin (results (thresholdSimulations64 g ! i)))"
    and "lossCount (thresholdScores64 db_sum db_avg g ! i) =
           length (filter (\<lambda>r. \<not> isWin r) (results (thresholdSimulations64 g ! i)))"
    and "totalProfit (thresholdScores64 db_sum db_avg g ! i) =
           db_sum (map profitLoss (results (thresholdSimulations64 g ! i)))"
    and "avgProfit (thresholdScores64 db_sum db_avg g ! i) =
           db_avg (map profitLoss (results (thresholdSimulations64 g ! i)))"
    and "winRate (thresholdScores64 db_sum db_avg g ! i) =
           fl (of_nat (winCount (thresholdScores64 db_sum db_avg g ! i)) /
               of_nat (profit_group.totalTokens g))"
    and "score.profitabilityScore (thresholdScores64 db_sum db_avg g ! i) =
           fl (winRate (thresholdScores64 db_sum db_avg g ! i) *
               avgProfit (thresholdScores64 db_sum db_avg g ! i))"
  using assms
  by (simp_all add: thresholdScores64_def thresholdAnalysis64_def thresholdSimulations64_def
      length_candidates64)


subsection \<open>Order and sign are those of the exact stages\<close>

lemma multipliers64_mono: "i \<le> j \<Longrightarrow> j < 7 \<Longrightarrow> fl (multipliers ! i) \<le> fl (multipliers ! j)"
  by (intro fl_mono multipliers_mono)

lemma candidates64_ascending:
  assumes "0 \<le> profit_group.avgRiseSol g" and "i \<le> j" and "j < 7"
  shows "thresholdCandidates64 g ! i \<le> thresholdCandidates64 g ! j"
proof -
  from assms have i: "i < 7" by simp
  have "profit_group.avgRiseSol g * fl (multipliers ! i) \<le>
        profit_group.avgRiseSol g * fl (multipliers ! j)"
    using multipliers64_mono[OF assms(2,3)] assms(1) by (rule mult_left_mono)
  then show ?thesis
    unfolding candidate64_nth[OF i] candidate64_nth[OF assms(3)] by (rule fl_mono)
qed

lemma candidates64_sign:
  assumes "th \<in> set (thresholdCandidates64 g)"
  shows "(profit_group.avgRiseSol g \<le> 0 \<longrightarrow> th \<le> 0) \<and>
         (profit_group.avgRiseSol g < 0 \<longrightarrow> th < 0) \<and>
         (0 \<le> profit_group.avgRiseSol g \<longrightarrow> 0 \<le> th) \<and>
         (profit_group.avgRiseSol g = 0 \<longrightarrow> th = 0)"
proof -
  from assms obtain m where m: "m \<in> set multipliers"
    and th: "th = fl (profit_group.avgRiseSol g * fl m)"
    by (auto simp: thresholdCandidates64_def)
  from multipliers_pos[OF m] have p: "0 < fl m" by (simp add: fl_pos_iff)
  have a: "th \<le> 0" if "profit_group.avgRiseSol g \<le> 0"
  proof -
    from that p have "profit_group.avgRiseSol g * fl m \<le> 0"
      by (simp add: mult_le_0_iff)
    from fl_mono[OF this] show ?thesis by (simp add: th)
  qed
  have b: "th < 0" if "profit_group.avgRiseSol g < 0"
  proof -
    from that p have "profit_group.avgRiseSol g * fl m < 0"
      by (simp add: mult_less_0_iff)
    then show ?thesis unfolding th by (rule fl_neg_lt)
  qed
  have c: "0 \<le> th" if "0 \<le> profit_group.avgRiseSol g"
  proof -
    from that p have "0 \<le> profit_group.avgRiseSol g * fl m" by simp
    then show ?thesis unfolding th by (rule fl_nonneg)
  qed
  have d: "th = 0" if "profit_group.avgRiseSol g = 0"
    using that by (simp add: th)
  from a b c d show ?thesis by blast
qed

lemma wins_and_losses64:
  assumes "s \<in> set (thresholdScores64 db_sum db_avg g)"
  shows "winCount s = length (filter (\<lambda>t. threshold s \<le> riseSol t) (profit_group.tokens g))"
    and "lossCount s = length (filter (\<lambda>t. riseSol t < threshold s) (profit_group.tokens g))"
    and "winCount s + lossCount s = length (profit_group.tokens g)"
proof -
  from assms obtain i where i: "i < 7" "s = thresholdScores64 db_sum db_avg g ! i"
    by (auto simp: in_set_conv_nth length_scores64)
  show w: "winCount s = length (filter (\<lambda>t. threshold s \<le> riseSol t) (profit_group.tokens g))"
    unfolding i(2) score64_nth(1,2)[OF i(1)] simulation64_nth[OF i(1)]
    by (simp only: simulation.select_convs count_wins)
  show l: "lossCount s = length (filter (\<lambda>t. riseSol t < threshold s) (profit_group.tokens g))"
    unfolding i(2) score64_nth(1,3)[OF i(1)] simulation64_nth[OF i(1)]
    by (simp only: simulation.select_convs count_losses)
  show "winCount s + lossCount s = length (profit_group.tokens g)"
    unfolding w l by (rule wins_plus_losses)
qed

lemma wins64_along_the_ladder:
  assumes "0 \<le> profit_group.avgRiseSol g" and "i \<le> j" and "j < 7"
  shows "winCount (thresholdScores64 db_sum db_avg g ! j) \<le>
         winCount (thresholdScores64 db_sum db_avg g ! i)"
proof -
  from assms have i: "i < 7" by simp
  let ?sc = "thresholdScores64 db_sum db_avg g"
  have "?sc ! i \<in> set ?sc" "?sc ! j \<in> set ?sc"
    using i assms(3) by (simp_all add: length_scores64)
  note w = wins_and_losses64(1)[OF this(1)] wins_and_losses64(1)[OF this(2)]
  have "threshold (?sc ! i) \<le> threshold (?sc ! j)"
    unfolding score64_nth(1)[OF i] score64_nth(1)[OF assms(3)]
    using assms by (rule candidates64_ascending)
  from wins_antimono[OF this] show ?thesis unfolding w .
qed

subsection \<open>Wins, losses and profit\<close>





end
